theory Spec2Isabelle
  imports Main "HOL-Library.Word" "HOL-Library.Signed_Division"
begin

section \<open>Bytes, slices and encoding parameters\<close>

text \<open>
  The indexer of \<^verbatim>\<open>logdataworker.cpp\<close> works on raw bytes. A \<^verbatim>\<open>QByteArray\<close> is a list
  of bytes; a \<^verbatim>\<open>std::string_view\<close> into a block is the pair of the offset of its
  \<^verbatim>\<open>data()\<close> pointer from \<^verbatim>\<open>block.data()\<close> and the bytes it covers. The value
  \<^verbatim>\<open>std::string_view::npos\<close> is \<open>None\<close>.
\<close>

type_synonym byte = "8 word"

type_synonym string_view = "nat \<times> byte list"

definition LF :: byte where
  "LF = 10"

definition TAB :: byte where
  "TAB = 9"

text \<open>
  \<^verbatim>\<open>EncodingParameters\<close> is declared in a header that is not part of the sources at hand;
  the two fields the indexer reads are kept. Every codec has a positive line feed width, so
  both fields are natural numbers here.
\<close>

record EncodingParameters =
  lineFeedWidth :: nat
  lineFeedIndex :: nat

text \<open>
  Modelled from the spec: \<^verbatim>\<open>EncodingParameters::getBeforeCrOffset\<close> is declared in the
  missing header. The spec calls it the offset "used to translate a hit byte address back to
  the code-unit boundary": the line feed byte sits \<open>lineFeedIndex\<close> bytes after the start of
  its code unit.
\<close>

definition getBeforeCrOffset :: "EncodingParameters \<Rightarrow> nat" where
  "getBeforeCrOffset ep = lineFeedIndex ep"

text \<open>
  Modelled from the spec: the encoding parameters that a codec can have,
  \<open>lineFeedWidth \<in> {1, 2, 4}\<close> and \<open>lineFeedIndex \<in> {0, width - 1}\<close>.
\<close>

definition valid_encoding :: "EncodingParameters \<Rightarrow> bool" where
  "valid_encoding ep \<longleftrightarrow>
     (lineFeedWidth ep = 1 \<or> lineFeedWidth ep = 2 \<or> lineFeedWidth ep = 4) \<and>
     (lineFeedIndex ep = 0 \<or> lineFeedIndex ep = lineFeedWidth ep - 1)"

text \<open>Modelled from the spec: the tab stop, "fixed at 8"; the constant is declared in a missing header.\<close>

definition TabStop :: int where
  "TabStop = 8"

section \<open>LineTerminatorScanner\<close>

text \<open>\<^verbatim>\<open>std::string_view::find(char, pos)\<close>: the first index at or after \<open>pos\<close> holding the byte.\<close>

primrec index_of :: "byte \<Rightarrow> byte list \<Rightarrow> nat option" where
  "index_of c [] = None"
| "index_of c (x # xs) = (if x = c then Some 0 else map_option Suc (index_of c xs))"

definition sv_find :: "byte list \<Rightarrow> byte \<Rightarrow> nat \<Rightarrow> nat option" where
  "sv_find data c start =
     (if length data < start then None
      else map_option (\<lambda>i. i + start) (index_of c (drop start data)))"

text \<open>The lambda \<^verbatim>\<open>isNotDelimeter\<close> of \<^verbatim>\<open>findNextMultiByteDelimeter\<close>.\<close>

definition isNotDelimeter :: "EncodingParameters \<Rightarrow> byte list \<Rightarrow> nat \<Rightarrow> bool" where
  "isNotDelimeter encodingParams data checkPos =
     (let lineFeedWidth = lineFeedWidth encodingParams;
          isCheckForward = (lineFeedIndex encodingParams = 0)
      in if isCheckForward \<and> checkPos + lineFeedWidth > length data then True
         else if \<not> isCheckForward \<and> checkPos < lineFeedWidth - 1 then True
         else list_ex (\<lambda>i. (if isCheckForward then data ! (checkPos + i)
                             else data ! (checkPos - i)) \<noteq> 0) [1..<lineFeedWidth])"

text \<open>
  The loop \<^verbatim>\<open>while (nextDelimeter != npos && isNotDelimeter(nextDelimeter))\<close>; its argument
  is the current value of \<^verbatim>\<open>nextDelimeter\<close>.
\<close>

function multiByteLoop ::
  "EncodingParameters \<Rightarrow> byte list \<Rightarrow> byte \<Rightarrow> nat option \<Rightarrow> nat option" where
  "multiByteLoop encodingParams data delimeter nextDelimeter =
     (case nextDelimeter of
        None \<Rightarrow> None
      | Some p \<Rightarrow>
          if isNotDelimeter encodingParams data p
          then multiByteLoop encodingParams data delimeter (sv_find data delimeter (p + 1))
          else Some p)"
  by pat_completeness auto
termination
proof (relation "measure (\<lambda>(ep, data, d, nx). case nx of None \<Rightarrow> 0 | Some p \<Rightarrow> Suc (length data - p))")
  show "wf (measure (\<lambda>(ep, data, d, nx). case nx of None \<Rightarrow> 0 | Some p \<Rightarrow> Suc (length data - p)))"
    by simp
next
  fix encodingParams :: EncodingParameters and data :: "byte list" and delimeter :: byte
    and nextDelimeter :: "nat option" and p :: nat
  assume "nextDelimeter = Some p"
  have bound: "index_of c xs = Some n \<Longrightarrow> n < length xs" for c xs n
    by (induction xs arbitrary: n) (auto split: if_splits)
  show "((encodingParams, data, delimeter, sv_find data delimeter (p + 1)),
         (encodingParams, data, delimeter, nextDelimeter)) \<in>
        measure (\<lambda>(ep, data, d, nx). case nx of None \<Rightarrow> 0 | Some p \<Rightarrow> Suc (length data - p))"
  proof (cases "sv_find data delimeter (p + 1)")
    case None
    with \<open>nextDelimeter = Some p\<close> show ?thesis by simp
  next
    case (Some q)
    then obtain n where "index_of delimeter (drop (p + 1) data) = Some n" and "q = n + (p + 1)"
      by (auto simp: sv_find_def split: if_splits)
    with bound [of delimeter "drop (p + 1) data" n] have "p + 1 \<le> q" "q < length data"
      by auto
    with Some \<open>nextDelimeter = Some p\<close> show ?thesis by simp
  qed
qed

declare multiByteLoop.simps [simp del]

definition findNextMultiByteDelimeter ::
  "EncodingParameters \<Rightarrow> byte list \<Rightarrow> byte \<Rightarrow> nat option" where
  "findNextMultiByteDelimeter encodingParams data delimeter =
     (let nextDelimeter = sv_find data delimeter 0
      in if nextDelimeter = None then nextDelimeter
         else multiByteLoop encodingParams data delimeter nextDelimeter)"

definition findNextSingleByteDelimeter ::
  "EncodingParameters \<Rightarrow> byte list \<Rightarrow> byte \<Rightarrow> nat option" where
  "findNextSingleByteDelimeter encodingParams data delimeter = sv_find data delimeter 0"

type_synonym FindDelimeter = "EncodingParameters \<Rightarrow> byte list \<Rightarrow> byte \<Rightarrow> nat option"


text \<open>
  The spec's words for a genuine delimiter: the \<open>lineFeedWidth - 1\<close> neighbouring bytes of the
  candidate (forward when \<open>lineFeedIndex = 0\<close>, backward otherwise) all lie within the slice and
  are all zero.
\<close>

definition neighbourhood_zero :: "EncodingParameters \<Rightarrow> byte list \<Rightarrow> nat \<Rightarrow> bool" where
  "neighbourhood_zero ep data p =
     (if lineFeedIndex ep = 0
      then (\<forall>i \<in> {1..<lineFeedWidth ep}. p + i < length data \<and> data ! (p + i) = 0)
      else (\<forall>i \<in> {1..<lineFeedWidth ep}. i \<le> p \<and> data ! (p - i) = 0))"

text \<open>What a run of the loop returns, given that no earlier candidate was genuine.\<close>

definition scanner_result :: "EncodingParameters \<Rightarrow> byte list \<Rightarrow> byte \<Rightarrow> nat option \<Rightarrow> bool" where
  "scanner_result ep data d r =
     (case r of
        Some p \<Rightarrow> p < length data \<and> data ! p = d \<and> neighbourhood_zero ep data p \<and>
                  (\<forall>q<p. data ! q = d \<longrightarrow> \<not> neighbourhood_zero ep data q)
      | None \<Rightarrow> (\<forall>q<length data. data ! q = d \<longrightarrow> \<not> neighbourhood_zero ep data q))"

section \<open>TabExpander\<close>

text \<open>
  \<^verbatim>\<open>charOffsetWithinBlock(blockStart, pointer, encodingParams)\<close>; the pointer is given by its
  distance from \<^verbatim>\<open>blockStart\<close>.
\<close>

definition charOffsetWithinBlock :: "nat \<Rightarrow> EncodingParameters \<Rightarrow> int" where
  "charOffsetWithinBlock distance encodingParams =
     int distance - int (getBeforeCrOffset encodingParams)"

text \<open>
  \<^verbatim>\<open>expandTabsInLine\<close>. The argument \<^verbatim>\<open>block\<close> of the source only serves as the base of the
  pointer arithmetic, which the offset of the slice replaces. \<^verbatim>\<open>%\<close> is the truncating
  remainder of C++, \<open>smod\<close>.
\<close>

function expandTabsInLine ::
  "string_view \<Rightarrow> int \<Rightarrow> EncodingParameters \<Rightarrow> FindDelimeter \<Rightarrow> int \<Rightarrow> int" where
  "expandTabsInLine (start, blockToExpand) posWithinBlock encodingParams findNextDelimeter
       additionalSpaces =
     (if blockToExpand = [] then additionalSpaces
      else
        case findNextDelimeter encodingParams blockToExpand TAB of
          None \<Rightarrow> additionalSpaces
        | Some nextTab \<Rightarrow>
            let tabPosWithinBlock = charOffsetWithinBlock (start + nextTab) encodingParams;
                currentExpandedSize = tabPosWithinBlock - posWithinBlock + additionalSpaces;
                additionalSpaces' =
                  additionalSpaces + (TabStop - (currentExpandedSize smod TabStop) - 1)
            in if nextTab \<ge> length blockToExpand then additionalSpaces'
               else expandTabsInLine (start + (nextTab + 1), drop (nextTab + 1) blockToExpand)
                      posWithinBlock encodingParams findNextDelimeter additionalSpaces')"
  by pat_completeness auto
termination
  by (relation "measure (\<lambda>(v, p, ep, f, a). length (snd v))") auto

declare expandTabsInLine.simps [simp del]

section \<open>BlockParser\<close>

type_synonym codec = string

text \<open>
  \<^verbatim>\<open>IndexingState\<close> is declared in the missing header; these are the fields the source reads
  and writes (\<^verbatim>\<open>end\<close> is \<open>end_pos\<close> here). Offsets and lengths are \<^verbatim>\<open>qint64\<close> in the source
  and unbounded integers here.
\<close>

record IndexingState =
  encodingParams :: EncodingParameters
  pos :: int
  max_length :: int
  additional_spaces :: int
  end_pos :: int
  file_size :: int
  encodingGuess :: "codec option"
  fileTextCodec :: "codec option"

definition findNextLineFeed ::
  "byte list \<Rightarrow> int \<Rightarrow> IndexingState \<Rightarrow> FindDelimeter \<Rightarrow> bool \<times> int \<times> int" where
  "findNextLineFeed block posWithinBlock state findNextDelimeter =
     (let searchStart = nat posWithinBlock;
          searchLineSize = nat (int (length block) - posWithinBlock);
          blockView = take searchLineSize (drop searchStart block);
          nextLineFeed = findNextDelimeter (encodingParams state) blockView LF;
          isEndOfBlock = (nextLineFeed = None);
          nextLineSize = (case nextLineFeed of Some n \<Rightarrow> n | None \<Rightarrow> searchLineSize);
          additionalSpaces =
            expandTabsInLine (searchStart, take nextLineSize blockView) posWithinBlock
              (encodingParams state) findNextDelimeter (additional_spaces state)
      in (isEndOfBlock,
          charOffsetWithinBlock (searchStart + nextLineSize) (encodingParams state),
          additionalSpaces))"

text \<open>
  One turn of the \<^verbatim>\<open>while (!isEndOfBlock)\<close> loop of \<^verbatim>\<open>parseDataBlock\<close>, after its
  out-of-block guard: the value of \<^verbatim>\<open>isEndOfBlock\<close> and the state at the end of the turn.
  \<^verbatim>\<open>/\<close> is the truncating division of C++, \<open>sdiv\<close>.
\<close>

definition parseDataBlock_turn ::
  "FindDelimeter \<Rightarrow> int \<Rightarrow> byte list \<Rightarrow> IndexingState \<Rightarrow> bool \<times> IndexingState" where
  "parseDataBlock_turn findNextDelimeter blockBeginning block state =
     (let posWithinBlock0 =
            (if pos state \<ge> blockBeginning then pos state - blockBeginning else 0);
          isEndOfBlock0 = (posWithinBlock0 = int (length block));
          (isEndOfBlock, posWithinBlock, additionalSpaces) =
            (if \<not> isEndOfBlock0
             then findNextLineFeed block posWithinBlock0 state findNextDelimeter
             else (isEndOfBlock0, posWithinBlock0, additional_spaces state));
          currentDataEnd = posWithinBlock + blockBeginning;
          length = (currentDataEnd - pos state) sdiv int (lineFeedWidth (encodingParams state))
                   + additionalSpaces;
          state1 = state\<lparr>additional_spaces := additionalSpaces,
                         max_length := max (max_length state) length\<rparr>
      in if \<not> isEndOfBlock
         then (isEndOfBlock,
               state1\<lparr>end_pos := currentDataEnd,
                      pos := currentDataEnd + int (lineFeedWidth (encodingParams state)),
                      additional_spaces := 0\<rparr>)
         else (isEndOfBlock, state1))"

text \<open>
  The loop of \<^verbatim>\<open>parseDataBlock\<close>. With encoding parameters that no codec has, the position
  need not advance and the loop need not end, so not returning is the value \<open>None\<close>.
\<close>

partial_function (option) parseDataBlock_loop ::
  "FindDelimeter \<Rightarrow> int \<Rightarrow> byte list \<Rightarrow> IndexingState \<Rightarrow> int list
     \<Rightarrow> (int list \<times> IndexingState) option" where
  "parseDataBlock_loop findNextDelimeter blockBeginning block state linePositions =
     (if pos state > blockBeginning + int (length block) then Some (linePositions, state)
      else
        let turn = parseDataBlock_turn findNextDelimeter blockBeginning block state
        in if fst turn then Some (linePositions, snd turn)
           else parseDataBlock_loop findNextDelimeter blockBeginning block (snd turn)
                  (linePositions @ [pos (snd turn)]))"

declare parseDataBlock_loop.simps [code]

definition parseDataBlock ::
  "int \<Rightarrow> byte list \<Rightarrow> IndexingState \<Rightarrow> (int list \<times> IndexingState) option" where
  "parseDataBlock blockBeginning block state =
     (let findNextDelimeter =
            (if lineFeedWidth (encodingParams state) = 1 then findNextSingleByteDelimeter
             else findNextMultiByteDelimeter)
      in parseDataBlock_loop findNextDelimeter blockBeginning block state [])"


section \<open>IndexStore\<close>

type_synonym digest = "64 word"

text \<open>
  \<^verbatim>\<open>IndexedHash\<close>, declared in the missing header, with the fields the spec lists; the field
  \<^verbatim>\<open>size\<close> is \<open>hash_size\<close> here. Sizes and file offsets are natural numbers.
\<close>

record IndexedHash =
  hash_size :: nat
  fullDigest :: digest
  headerDigest :: digest
  headerSize :: nat
  tailDigest :: digest
  tailOffset :: nat
  tailSize :: nat

definition empty_hash :: IndexedHash where
  "empty_hash = \<lparr>hash_size = 0, fullDigest = 0, headerDigest = 0, headerSize = 0,
                  tailDigest = 0, tailOffset = 0, tailSize = 0\<rparr>"

text \<open>
  The line offset array with its flag for a synthetic final entry
  (\<^verbatim>\<open>LinePositionArray\<close> and \<^verbatim>\<open>FastLinePositionArray\<close>).
\<close>

record LinePositionArray =
  offsets :: "int list"
  fakeFinalLF :: bool

definition empty_positions :: LinePositionArray where
  "empty_positions = \<lparr>offsets = [], fakeFinalLF = False\<rparr>"

text \<open>
  Modelled from the spec: \<^verbatim>\<open>append_list\<close> is declared in a missing header. The spec describes
  the array as append-only, with a flag that tells whether the final entry is synthetic.
\<close>

definition append_list :: "LinePositionArray \<Rightarrow> LinePositionArray \<Rightarrow> LinePositionArray" where
  "append_list this other =
     \<lparr>offsets = offsets this @ offsets other, fakeFinalLF = fakeFinalLF other\<rparr>"

text \<open>
  What the source takes from its surroundings: the encoding detector, the constructor
  \<^verbatim>\<open>EncodingParameters(codec)\<close>, \<^verbatim>\<open>QTextCodec::codecForLocale()\<close>, the digest that a
  \<^verbatim>\<open>FileDigest\<close> computes of the bytes added to it, the configuration flag
  \<^verbatim>\<open>fastModificationDetection\<close> and the largest value of \<^verbatim>\<open>LineLength::UnderlyingType\<close>.
\<close>

record env =
  detectEncoding :: "byte list \<Rightarrow> codec"
  encodingParametersOf :: "codec \<Rightarrow> EncodingParameters"
  codecForLocale :: codec
  fileDigest :: "byte list \<Rightarrow> digest"
  fastModificationDetection :: bool
  lineLengthMax :: int

text \<open>
  \<^verbatim>\<open>IndexingData\<close>; a member \<^verbatim>\<open>name_\<close> of the source is the field \<open>name_m\<close>. The hash
  builder is the sequence of bytes added to it since its last reset.
\<close>

record IndexingData =
  maxLength_m :: int
  hash_m :: IndexedHash
  hashBuilder_m :: "byte list"
  linePosition_m :: LinePositionArray
  encodingGuess_m :: "codec option"
  encodingForced_m :: "codec option"
  progress_m :: int
  useFastModificationDetection_m :: bool

definition getIndexedSize :: "IndexingData \<Rightarrow> nat" where
  "getIndexedSize d = hash_size (hash_m d)"

definition getHash :: "IndexingData \<Rightarrow> IndexedHash" where
  "getHash d = hash_m d"

definition getMaxLength :: "IndexingData \<Rightarrow> int" where
  "getMaxLength d = maxLength_m d"

definition getNbLines :: "IndexingData \<Rightarrow> nat" where
  "getNbLines d = length (offsets (linePosition_m d))"

definition getEncodingGuess :: "IndexingData \<Rightarrow> codec option" where
  "getEncodingGuess d = encodingGuess_m d"

definition setEncodingGuess :: "IndexingData \<Rightarrow> codec option \<Rightarrow> IndexingData" where
  "setEncodingGuess d codec = d\<lparr>encodingGuess_m := codec\<rparr>"

definition forceEncoding :: "IndexingData \<Rightarrow> codec option \<Rightarrow> IndexingData" where
  "forceEncoding d codec = d\<lparr>encodingForced_m := codec\<rparr>"

definition getForcedEncoding :: "IndexingData \<Rightarrow> codec option" where
  "getForcedEncoding d = encodingForced_m d"

definition addAll ::
  "env \<Rightarrow> IndexingData \<Rightarrow> byte list \<Rightarrow> int \<Rightarrow> LinePositionArray \<Rightarrow> codec option
     \<Rightarrow> IndexingData" where
  "addAll e d block len linePosition encoding =
     (let d1 = d\<lparr>maxLength_m := max (maxLength_m d) len,
                 linePosition_m := append_list (linePosition_m d) linePosition\<rparr>;
          d2 = (if block \<noteq> []
                then
                  let d3 = d1\<lparr>hash_m := (hash_m d1)\<lparr>hash_size :=
                                  hash_size (hash_m d1) + length block\<rparr>\<rparr>
                  in if \<not> useFastModificationDetection_m d3
                     then
                       let d4 = d3\<lparr>hashBuilder_m := hashBuilder_m d3 @ block\<rparr>
                       in d4\<lparr>hash_m := (hash_m d4)\<lparr>fullDigest :=
                                 fileDigest e (hashBuilder_m d4)\<rparr>\<rparr>
                     else d3
                else d1)
      in d2\<lparr>encodingGuess_m := encoding\<rparr>)"

definition getProgress :: "IndexingData \<Rightarrow> int" where
  "getProgress d = progress_m d"

definition setProgress :: "IndexingData \<Rightarrow> int \<Rightarrow> IndexingData" where
  "setProgress d progress = d\<lparr>progress_m := progress\<rparr>"

definition clear :: "env \<Rightarrow> IndexingData \<Rightarrow> IndexingData" where
  "clear e d =
     d\<lparr>maxLength_m := 0, hash_m := empty_hash, hashBuilder_m := [],
       linePosition_m := empty_positions, encodingGuess_m := None, encodingForced_m := None,
       progress_m := 0, useFastModificationDetection_m := fastModificationDetection e\<rparr>"

text \<open>
  Modelled from the spec: \<^verbatim>\<open>setHeaderHash\<close> and \<^verbatim>\<open>setTailHash\<close> are declared in the missing
  header; they "publish prefix/suffix fingerprints".
\<close>

definition setHeaderHash :: "IndexingData \<Rightarrow> digest \<Rightarrow> nat \<Rightarrow> IndexingData" where
  "setHeaderHash d dg sz = d\<lparr>hash_m := (hash_m d)\<lparr>headerDigest := dg, headerSize := sz\<rparr>\<rparr>"

definition setTailHash :: "IndexingData \<Rightarrow> digest \<Rightarrow> nat \<Rightarrow> nat \<Rightarrow> IndexingData" where
  "setTailHash d dg off sz =
     d\<lparr>hash_m := (hash_m d)\<lparr>tailDigest := dg, tailOffset := off, tailSize := sz\<rparr>\<rparr>"


section \<open>Files, the interrupt flag and events\<close>

definition IndexingBlockSize :: nat where
  "IndexingBlockSize = 1 * 1024 * 1024"

text \<open>
  An open \<^verbatim>\<open>QFile\<close>: the bytes on disk and the current position. Reads of an open file
  succeed and return the bytes asked for, as far as the file has them. A file that cannot be
  opened is \<open>None\<close> where a file is expected.
\<close>

record FileHandle =
  content :: "byte list"
  fpos :: nat

definition file_open :: "byte list \<Rightarrow> FileHandle" where
  "file_open bytes = \<lparr>content = bytes, fpos = 0\<rparr>"

definition file_atEnd :: "FileHandle \<Rightarrow> bool" where
  "file_atEnd file \<longleftrightarrow> length (content file) \<le> fpos file"

definition file_read :: "FileHandle \<Rightarrow> nat \<Rightarrow> byte list \<times> FileHandle" where
  "file_read file maxSize =
     (let bytes = take maxSize (drop (fpos file) (content file))
      in (bytes, file\<lparr>fpos := fpos file + length bytes\<rparr>))"

definition file_seek :: "FileHandle \<Rightarrow> nat \<Rightarrow> FileHandle" where
  "file_seek file p = file\<lparr>fpos := p\<rparr>"

text \<open>
  The atomic flag \<^verbatim>\<open>interruptRequest_\<close> is set by another thread and cleared only between
  operations, so within a run it goes from unset to set at most once. \<open>Some k\<close> is a flag that
  reads unset for the next \<open>k\<close> reads and set from then on; \<open>None\<close> is a flag that is never set.
  Reading the flag gives its value and the flag for the reads that follow.
\<close>

type_synonym InterruptRequest = "nat option"

fun interruptRequested :: "InterruptRequest \<Rightarrow> bool \<times> InterruptRequest" where
  "interruptRequested None = (False, None)"
| "interruptRequested (Some 0) = (True, Some 0)"
| "interruptRequested (Some (Suc k)) = (False, Some k)"

datatype MonitoredFileStatus = Unchanged | DataAdded | Truncated

text \<open>
  What an operation lets the outside see: the signals it emits, the message box that
  \<^verbatim>\<open>doIndex\<close> shows for lines that are too long, and the issue report that a caught exception is turned into.
\<close>

datatype event =
  IndexingProgressed int
  | IndexingFinished bool
  | FileCheckFinished MonitoredFileStatus
  | LinesTooLongMessage
  | IssueReported string

section \<open>IndexingPipeline\<close>

type_synonym BlockData = "int \<times> byte list"

text \<open>
  \<^verbatim>\<open>readFileInBlocks\<close>: the blocks put into the gateway, in order, the sentinel last; the
  flag and the file as the reader leaves them.
\<close>

function readFileInBlocks ::
  "InterruptRequest \<Rightarrow> FileHandle \<Rightarrow> BlockData list \<times> InterruptRequest \<times> FileHandle" where
  "readFileInBlocks interruptRequest file =
     (if file_atEnd file then ([(- 1, [])], interruptRequest, file)
      else if fst (interruptRequested interruptRequest)
      then ([(- 1, [])], snd (interruptRequested interruptRequest), file)
      else
        let blockData = (int (fpos file), fst (file_read file IndexingBlockSize));
            rest = readFileInBlocks (snd (interruptRequested interruptRequest))
                     (snd (file_read file IndexingBlockSize))
        in (blockData # fst rest, snd rest))"
  by pat_completeness auto
termination
  by (relation "measure (\<lambda>(i, f). length (content f) - fpos f)")
    (auto simp: file_atEnd_def file_read_def IndexingBlockSize_def Let_def)

declare readFileInBlocks.simps [simp del]

text \<open>
  \<^verbatim>\<open>guessEncoding\<close>. The detector returns a codec, so after the first assignment neither
  \<^verbatim>\<open>state.encodingGuess\<close> nor \<^verbatim>\<open>state.fileTextCodec\<close> is null.
\<close>

definition guessEncoding :: "env \<Rightarrow> byte list \<Rightarrow> IndexingData \<Rightarrow> IndexingState \<Rightarrow> IndexingState" where
  "guessEncoding e block d state =
     (let guess = (case encodingGuess state of
                     None \<Rightarrow> detectEncoding e block
                   | Some g \<Rightarrow> g);
          fileCodec = (case fileTextCodec state of
                         Some c \<Rightarrow> c
                       | None \<Rightarrow>
                           (case getForcedEncoding d of
                              Some c \<Rightarrow> c
                            | None \<Rightarrow>
                                (case getEncodingGuess d of
                                   Some c \<Rightarrow> c
                                 | None \<Rightarrow> guess)))
      in state\<lparr>encodingGuess := Some guess, fileTextCodec := Some fileCodec,
               encodingParams := encodingParametersOf e fileCodec\<rparr>)"

text \<open>
  Modelled from the spec: \<^verbatim>\<open>calculateProgress\<close> is declared in a missing header; the
  percentage is "computed as \<open>clamp(pos * 100 / file_size, 0, 100)\<close>".
\<close>

definition calculateProgress :: "int \<Rightarrow> int \<Rightarrow> int" where
  "calculateProgress v maxValue = max 0 (min 100 ((v * 100) sdiv maxValue))"

definition indexNextBlock ::
  "env \<Rightarrow> IndexingState \<Rightarrow> IndexingData \<Rightarrow> BlockData
     \<Rightarrow> (IndexingState \<times> IndexingData \<times> event list) option" where
  "indexNextBlock e state d blockData =
     (let blockBeginning = fst blockData; block = snd blockData
      in if blockBeginning < 0 then Some (state, d, [])
         else
           let state1 = guessEncoding e block d state
           in if block \<noteq> []
              then
                case parseDataBlock blockBeginning block state1 of
                  None \<Rightarrow> None
                | Some (linePositions, state2) \<Rightarrow>
                    let maxLength = (if max_length state2 > lineLengthMax e
                                     then lineLengthMax e else max_length state2);
                        d1 = addAll e d block maxLength
                               \<lparr>offsets = linePositions, fakeFinalLF = False\<rparr>
                               (encodingGuess state2);
                        progress = (if file_size state2 > 0
                                    then calculateProgress (pos state2) (file_size state2)
                                    else 100)
                    in if progress \<noteq> getProgress d1
                       then Some (state2, setProgress d1 progress, [IndexingProgressed progress])
                       else Some (state2, d1, [])
              else Some (state1, setEncodingGuess d (encodingGuess state1), []))"

text \<open>
  The parser node is serial and takes the blocks from a queue, so it sees them in the order
  in which the reader put them.
\<close>

fun indexBlocks ::
  "env \<Rightarrow> IndexingState \<Rightarrow> IndexingData \<Rightarrow> BlockData list
     \<Rightarrow> (IndexingState \<times> IndexingData \<times> event list) option" where
  "indexBlocks e state d [] = Some (state, d, [])"
| "indexBlocks e state d (blockData # rest) =
     (case indexNextBlock e state d blockData of
        None \<Rightarrow> None
      | Some (state1, d1, events1) \<Rightarrow>
          (case indexBlocks e state1 d1 rest of
             None \<Rightarrow> None
           | Some (state2, d2, events2) \<Rightarrow> Some (state2, d2, events1 @ events2)))"


text \<open>
  The state at the start of \<^verbatim>\<open>doIndex\<close>. The members that \<^verbatim>\<open>doIndex\<close> does not assign
  have the initial values of the missing header, taken to be zero and single-byte parameters.
\<close>

definition initialState :: "IndexingData \<Rightarrow> int \<Rightarrow> int \<Rightarrow> IndexingState" where
  "initialState d initialPosition fileSize =
     \<lparr>encodingParams = \<lparr>lineFeedWidth = 1, lineFeedIndex = 0\<rparr>,
      pos = initialPosition, max_length = 0, additional_spaces = 0, end_pos = 0,
      file_size = fileSize,
      encodingGuess = getEncodingGuess d,
      fileTextCodec = (case getForcedEncoding d of
                         Some c \<Rightarrow> Some c
                       | None \<Rightarrow> getEncodingGuess d)\<rparr>"

text \<open>The branch of \<^verbatim>\<open>doIndex\<close> for a file that cannot be opened.\<close>

definition doIndex_openFailure :: "env \<Rightarrow> IndexingData \<Rightarrow> IndexingData \<times> event list" where
  "doIndex_openFailure e d =
     (let d1 = clear e d;
          d2 = setEncodingGuess d1 (Some (codecForLocale e));
          d3 = setProgress d2 100
      in (d3, [IndexingProgressed 100]))"

text \<open>
  \<^verbatim>\<open>doIndex\<close> from the creation of the state to \<^verbatim>\<open>ioThread.join()\<close>: the reader runs over
  the file from \<^verbatim>\<open>state.pos\<close>, the parser over the reader's blocks.
\<close>

definition doIndex_pipeline ::
  "env \<Rightarrow> byte list \<Rightarrow> InterruptRequest \<Rightarrow> IndexingData \<Rightarrow> int
     \<Rightarrow> (IndexingState \<times> IndexingData \<times> event list \<times> InterruptRequest \<times> FileHandle) option" where
  "doIndex_pipeline e bytes interruptRequest d initialPosition =
     (let state = initialState d initialPosition (int (length bytes));
          file = file_seek (file_open bytes) (nat (pos state));
          reader = readFileInBlocks interruptRequest file
      in case indexBlocks e state d (fst reader) of
           None \<Rightarrow> None
         | Some (state1, d1, events) \<Rightarrow>
             Some (state1, d1, events, fst (snd reader), snd (snd reader)))"

text \<open>The check for a last line without line feed; the argument is the value read from the flag.\<close>

definition doIndex_fakeFinalLF ::
  "env \<Rightarrow> bool \<Rightarrow> IndexingState \<Rightarrow> IndexingData \<Rightarrow> IndexingData" where
  "doIndex_fakeFinalLF e interrupted state d =
     (if \<not> interrupted \<and> file_size state > pos state
      then addAll e d [] 0 \<lparr>offsets = [file_size state + 1], fakeFinalLF = True\<rparr>
             (encodingGuess state)
      else d)"

text \<open>The header and tail digests, from \<^verbatim>\<open>file.pos()\<close> to the second \<^verbatim>\<open>setTailHash\<close>.\<close>

definition doIndex_rehash :: "env \<Rightarrow> FileHandle \<Rightarrow> IndexingData \<Rightarrow> IndexingData" where
  "doIndex_rehash e file d =
     (let endFilePos = fpos file;
          headerRead = file_read (file_seek file 0) IndexingBlockSize;
          headerHashSize = length (fst headerRead);
          d1 = setHeaderHash d (fileDigest e (fst headerRead)) headerHashSize
      in if endFilePos \<le> IndexingBlockSize
         then setTailHash d1 (fileDigest e (fst headerRead)) 0 headerHashSize
         else
           let tailHashOffset = endFilePos - IndexingBlockSize;
               tailRead = file_read (file_seek (snd headerRead) tailHashOffset) IndexingBlockSize
           in setTailHash d1 (fileDigest e (fst tailRead)) tailHashOffset
                (length (fst tailRead)))"

text \<open>The end of \<^verbatim>\<open>doIndex\<close>, from \<^verbatim>\<open>if (interruptRequest_)\<close> on.\<close>

definition doIndex_finish :: "env \<Rightarrow> bool \<Rightarrow> IndexingData \<Rightarrow> IndexingData \<times> event list" where
  "doIndex_finish e interrupted d =
     (let d1 = (if interrupted then clear e d else d);
          tooLong = (getMaxLength d1 = lineLengthMax e);
          d2 = (if tooLong then clear e d1 else d1);
          d3 = (if getEncodingGuess d2 = None
                then setEncodingGuess d2 (Some (codecForLocale e)) else d2)
      in (d3, if tooLong then [LinesTooLongMessage] else []))"

text \<open>
  \<^verbatim>\<open>doIndex\<close> for a file that opens, up to and including the header and tail digests: the
  store at that point, the events so far and the flag.
\<close>

definition doIndex_rehashed ::
  "env \<Rightarrow> byte list \<Rightarrow> InterruptRequest \<Rightarrow> IndexingData \<Rightarrow> int
     \<Rightarrow> (IndexingData \<times> event list \<times> InterruptRequest) option" where
  "doIndex_rehashed e bytes interruptRequest d initialPosition =
     (case doIndex_pipeline e bytes interruptRequest d initialPosition of
        None \<Rightarrow> None
      | Some (state, d1, events, interruptRequest1, file) \<Rightarrow>
          let d2 = doIndex_fakeFinalLF e (fst (interruptRequested interruptRequest1)) state d1
          in Some (doIndex_rehash e file d2, events,
                   snd (interruptRequested interruptRequest1)))"

definition doIndex ::
  "env \<Rightarrow> byte list option \<Rightarrow> InterruptRequest \<Rightarrow> IndexingData \<Rightarrow> int
     \<Rightarrow> (IndexingData \<times> event list \<times> InterruptRequest) option" where
  "doIndex e file interruptRequest d initialPosition =
     (case file of
        None \<Rightarrow>
          Some (fst (doIndex_openFailure e d), snd (doIndex_openFailure e d), interruptRequest)
      | Some bytes \<Rightarrow>
          (case doIndex_rehashed e bytes interruptRequest d initialPosition of
             None \<Rightarrow> None
           | Some (d3, events, interruptRequest2) \<Rightarrow>
               let finish = doIndex_finish e (fst (interruptRequested interruptRequest2)) d3
               in Some (fst finish, events @ snd finish,
                        snd (interruptRequested interruptRequest2))))"

section \<open>Worker operations\<close>

text \<open>
  How the guarded block of an operation ends: it returns, or a \<^verbatim>\<open>std::exception\<close> leaves it,
  with its \<^verbatim>\<open>what()\<close>, the store and the events emitted at that moment.
\<close>

datatype 'a attempt = Returns 'a | Throws string IndexingData "event list"

type_synonym doIndexImpl =
  "IndexingData \<Rightarrow> int \<Rightarrow> (IndexingData \<times> event list \<times> InterruptRequest) attempt option"

text \<open>
  \<^verbatim>\<open>FullIndexOperation::run\<close> around any implementation of \<^verbatim>\<open>doIndex\<close>: the new store, the
  events and the result.
\<close>

definition FullIndexOperation_run_with ::
  "env \<Rightarrow> doIndexImpl \<Rightarrow> codec option \<Rightarrow> IndexingData
     \<Rightarrow> (IndexingData \<times> event list \<times> bool) option" where
  "FullIndexOperation_run_with e impl forcedEncoding d =
     (let d1 = forceEncoding (clear e d) forcedEncoding
      in case impl d1 0 of
           None \<Rightarrow> None
         | Some (Returns (d2, events, interruptRequest)) \<Rightarrow>
             let result = (if fst (interruptRequested interruptRequest) then False else True)
             in Some (d2, IndexingProgressed 0 # events @ [IndexingFinished result], result)
         | Some (Throws what dT events) \<Rightarrow>
             Some (clear e dT,
                   IndexingProgressed 0 # events
                     @ [IssueReported (''FullIndexOperation failed: '' @ what)],
                   False))"

definition PartialIndexOperation_run_with ::
  "env \<Rightarrow> doIndexImpl \<Rightarrow> IndexingData \<Rightarrow> (IndexingData \<times> event list \<times> bool) option" where
  "PartialIndexOperation_run_with e impl d =
     (let initialPosition = int (getIndexedSize d)
      in case impl d initialPosition of
           None \<Rightarrow> None
         | Some (Returns (d2, events, interruptRequest)) \<Rightarrow>
             let result = (if fst (interruptRequested interruptRequest) then False else True)
             in Some (d2, IndexingProgressed 0 # events @ [IndexingFinished result], result)
         | Some (Throws what dT events) \<Rightarrow>
             Some (clear e dT,
                   IndexingProgressed 0 # events
                     @ [IssueReported (''PartialIndexOperation failed: '' @ what)],
                   False))"

text \<open>The two operations with the \<^verbatim>\<open>doIndex\<close> of the source.\<close>

definition doIndex_impl :: "env \<Rightarrow> byte list option \<Rightarrow> InterruptRequest \<Rightarrow> doIndexImpl" where
  "doIndex_impl e file interruptRequest d initialPosition =
     map_option Returns (doIndex e file interruptRequest d initialPosition)"

definition FullIndexOperation_run ::
  "env \<Rightarrow> byte list option \<Rightarrow> InterruptRequest \<Rightarrow> codec option \<Rightarrow> IndexingData
     \<Rightarrow> (IndexingData \<times> event list \<times> bool) option" where
  "FullIndexOperation_run e file interruptRequest forcedEncoding d =
     FullIndexOperation_run_with e (doIndex_impl e file interruptRequest) forcedEncoding d"

definition PartialIndexOperation_run ::
  "env \<Rightarrow> byte list option \<Rightarrow> InterruptRequest \<Rightarrow> IndexingData
     \<Rightarrow> (IndexingData \<times> event list \<times> bool) option" where
  "PartialIndexOperation_run e file interruptRequest d =
     PartialIndexOperation_run_with e (doIndex_impl e file interruptRequest) d"


section \<open>ChangeChecker\<close>

text \<open>
  The \<^verbatim>\<open>do ... while\<close> loop of the lambda \<^verbatim>\<open>getDigest\<close>: the bytes added to the digest so
  far and the file, at the start of a turn.
\<close>

function getDigest_loop ::
  "FileHandle \<Rightarrow> nat \<Rightarrow> nat \<Rightarrow> byte list \<Rightarrow> byte list \<times> FileHandle" where
  "getDigest_loop file indexedSize totalSize added =
     (let bytesToRead = min IndexingBlockSize (indexedSize - totalSize);
          readResult = file_read file bytesToRead;
          readSize = length (fst readResult);
          added1 = (if readSize > 0 then added @ fst readResult else added);
          totalSize1 = (if readSize > 0 then totalSize + readSize else totalSize)
      in if readSize > 0 \<and> totalSize1 < indexedSize
         then getDigest_loop (snd readResult) indexedSize totalSize1 added1
         else (added1, snd readResult))"
  by pat_completeness auto
termination
proof (relation "measure (\<lambda>(f, n, t, a). n - t)", goal_cases)
  case 1
  show ?case by simp
next
  case (2 f indexedSize totalSize added bytesToRead readResult readSize added1 totalSize1)
  then have "0 < readSize" and "totalSize + readSize < indexedSize"
    by (simp_all del: length_greater_0_conv)
  then have "indexedSize - (totalSize + readSize) < indexedSize - totalSize"
    by arith
  with 2 show ?case
    by (simp del: length_greater_0_conv)
qed

declare getDigest_loop.simps [simp del]

definition getDigest :: "env \<Rightarrow> FileHandle \<Rightarrow> nat \<Rightarrow> digest \<times> FileHandle" where
  "getDigest e file indexedSize =
     (let r = getDigest_loop file indexedSize 0 []
      in (fileDigest e (fst r), snd r))"

text \<open>
  \<^verbatim>\<open>doCheckFileChanges\<close>. The size comes from \<^verbatim>\<open>QFileInfo\<close> and the bytes from \<^verbatim>\<open>QFile\<close>, so
  they are two arguments.
\<close>

definition doCheckFileChanges ::
  "env \<Rightarrow> nat \<Rightarrow> byte list option \<Rightarrow> IndexingData \<Rightarrow> MonitoredFileStatus" where
  "doCheckFileChanges e realFileSize file d =
     (let indexedHash = getHash d
      in if realFileSize = 0 \<or> realFileSize < hash_size indexedHash then Truncated
         else
           case file of
             None \<Rightarrow> Truncated
           | Some bytes \<Rightarrow>
               let isFileModified =
                     (if fastModificationDetection e
                      then
                        let header = getDigest e (file_open bytes) (headerSize indexedHash);
                            isFileModified1 = (fst header \<noteq> headerDigest indexedHash)
                        in if \<not> isFileModified1
                           then
                             let tail = getDigest e
                                          (file_seek (snd header) (tailOffset indexedHash))
                                          (tailSize indexedHash)
                             in fst tail \<noteq> tailDigest indexedHash
                           else isFileModified1
                      else
                        let realHash = getDigest e (file_open bytes) (hash_size indexedHash)
                        in fst realHash \<noteq> fullDigest indexedHash)
               in if isFileModified then Truncated
                  else if realFileSize > hash_size indexedHash then DataAdded
                  else Unchanged)"

text \<open>
  \<^verbatim>\<open>CheckFileChangesOperation::run\<close> around any implementation of the check. The operation
  holds the store through a read-only accessor, so the store it leaves is the one it found.
\<close>

definition CheckFileChangesOperation_run_with ::
  "(IndexingData \<Rightarrow> MonitoredFileStatus attempt) \<Rightarrow> IndexingData
     \<Rightarrow> IndexingData \<times> event list \<times> MonitoredFileStatus" where
  "CheckFileChangesOperation_run_with impl d =
     (case impl d of
        Returns result \<Rightarrow> (d, [FileCheckFinished result], result)
      | Throws what dT events \<Rightarrow>
          (d, [IssueReported (''CheckFileChangesOperation failed: '' @ what)], Truncated))"

definition CheckFileChangesOperation_run ::
  "env \<Rightarrow> nat \<Rightarrow> byte list option \<Rightarrow> IndexingData
     \<Rightarrow> IndexingData \<times> event list \<times> MonitoredFileStatus" where
  "CheckFileChangesOperation_run e realFileSize file d =
     CheckFileChangesOperation_run_with
       (\<lambda>d. Returns (doCheckFileChanges e realFileSize file d)) d"


section \<open>Concrete surroundings for the scenarios\<close>

text \<open>Modelled from the spec: "the IndexStore is created empty".\<close>

definition empty_store :: IndexingData where
  "empty_store =
     \<lparr>maxLength_m = 0, hash_m = empty_hash, hashBuilder_m = [],
      linePosition_m = empty_positions, encodingGuess_m = None, encodingForced_m = None,
      progress_m = 0, useFastModificationDetection_m = False\<rparr>"

text \<open>
  An environment to run the scenarios of the spec in: a detector that always answers UTF-8,
  the encoding parameters of the UTF-16 and UTF-32 codecs and single-byte parameters for all
  other codecs, a simple polynomial digest, full-digest mode, and 32-bit line lengths.
\<close>

definition scenario_parameters :: "codec \<Rightarrow> EncodingParameters" where
  "scenario_parameters c =
     (if c = ''UTF-16LE'' then \<lparr>lineFeedWidth = 2, lineFeedIndex = 0\<rparr>
      else if c = ''UTF-16BE'' then \<lparr>lineFeedWidth = 2, lineFeedIndex = 1\<rparr>
      else if c = ''UTF-32LE'' then \<lparr>lineFeedWidth = 4, lineFeedIndex = 0\<rparr>
      else if c = ''UTF-32BE'' then \<lparr>lineFeedWidth = 4, lineFeedIndex = 3\<rparr>
      else \<lparr>lineFeedWidth = 1, lineFeedIndex = 0\<rparr>)"

definition scenario_digest :: "byte list \<Rightarrow> digest" where
  "scenario_digest bytes = foldl (\<lambda>h b. h * 31 + ucast b) 7 bytes"

definition scenario_env :: env where
  "scenario_env =
     \<lparr>detectEncoding = (\<lambda>block. ''UTF-8''),
      encodingParametersOf = scenario_parameters,
      codecForLocale = ''System'',
      fileDigest = scenario_digest,
      fastModificationDetection = False,
      lineLengthMax = 2147483647\<rparr>"


section \<open>Notions of the specification\<close>

text \<open>
  The operations of the mutating accessor; a store in use is what a sequence of them makes of
  a cleared store.
\<close>

datatype store_op =
  Clear
  | AddAll "byte list" int LinePositionArray "codec option"
  | SetHeaderHash digest nat
  | SetTailHash digest nat nat
  | SetEncodingGuess "codec option"
  | ForceEncoding "codec option"
  | SetProgress int

fun apply_store_op :: "env \<Rightarrow> IndexingData \<Rightarrow> store_op \<Rightarrow> IndexingData" where
  "apply_store_op e d Clear = clear e d"
| "apply_store_op e d (AddAll block len linePosition encoding) =
     addAll e d block len linePosition encoding"
| "apply_store_op e d (SetHeaderHash dg sz) = setHeaderHash d dg sz"
| "apply_store_op e d (SetTailHash dg off sz) = setTailHash d dg off sz"
| "apply_store_op e d (SetEncodingGuess c) = setEncodingGuess d c"
| "apply_store_op e d (ForceEncoding c) = forceEncoding d c"
| "apply_store_op e d (SetProgress p) = setProgress d p"

text \<open>
  The bytes of the blocks that a sequence of operations has added since its last clear, the
  sequence being applied after the bytes \<open>added\<close>.
\<close>

fun added_after :: "byte list \<Rightarrow> store_op \<Rightarrow> byte list" where
  "added_after added Clear = []"
| "added_after added (AddAll block len linePosition encoding) = added @ block"
| "added_after added (SetHeaderHash dg sz) = added"
| "added_after added (SetTailHash dg off sz) = added"
| "added_after added (SetEncodingGuess c) = added"
| "added_after added (ForceEncoding c) = added"
| "added_after added (SetProgress p) = added"

definition added_since_clear :: "store_op list \<Rightarrow> byte list" where
  "added_since_clear ops = foldl added_after [] ops"

text \<open>
  The fingerprint's size and the full-file hash builder follow the bytes added: the size
  counts them in either mode; with fast modification detection the builder is fed nothing,
  without it the builder is fed exactly these bytes.
\<close>

definition store_tracks :: "IndexingData \<Rightarrow> byte list \<Rightarrow> bool" where
  "store_tracks d added \<longleftrightarrow>
     hash_size (hash_m d) = length added \<and>
     hashBuilder_m d = (if useFastModificationDetection_m d then [] else added)"

text \<open>The scenario environment with fast modification detection configured.\<close>

definition scenario_env_fast :: env where
  "scenario_env_fast =
     \<lparr>detectEncoding = (\<lambda>block. ''UTF-8''),
      encodingParametersOf = scenario_parameters,
      codecForLocale = ''System'',
      fileDigest = scenario_digest,
      fastModificationDetection = True,
      lineLengthMax = 2147483647\<rparr>"

text \<open>
  The classification of the change check in the words of the specification: whether the
  recomputed digest differs from the stored one, and the status that follows.
\<close>

definition digest_differs :: "env \<Rightarrow> byte list \<Rightarrow> IndexedHash \<Rightarrow> bool" where
  "digest_differs e bytes h =
     (if fastModificationDetection e
      then fileDigest e (take (headerSize h) bytes) \<noteq> headerDigest h \<or>
           fileDigest e (take (tailSize h) (drop (tailOffset h) bytes)) \<noteq> tailDigest h
      else fileDigest e (take (hash_size h) bytes) \<noteq> fullDigest h)"

definition change_classification ::
  "env \<Rightarrow> nat \<Rightarrow> byte list option \<Rightarrow> IndexedHash \<Rightarrow> MonitoredFileStatus" where
  "change_classification e realFileSize file h =
     (if realFileSize = 0 \<or> realFileSize < hash_size h then Truncated
      else
        case file of
          None \<Rightarrow> Truncated
        | Some bytes \<Rightarrow>
            if digest_differs e bytes h then Truncated
            else if realFileSize > hash_size h then DataAdded
            else Unchanged)"

text \<open>The scanner that \<^verbatim>\<open>parseDataBlock\<close> chooses for the encoding parameters of the state.\<close>

definition chosen_scanner :: "EncodingParameters \<Rightarrow> FindDelimeter" where
  "chosen_scanner ep = (if lineFeedWidth ep = 1 then findNextSingleByteDelimeter else findNextMultiByteDelimeter)"

text \<open>The members of the state that parsing a block leaves alone.\<close>

definition same_frame :: "IndexingState \<Rightarrow> IndexingState \<Rightarrow> bool" where
  "same_frame st st' \<longleftrightarrow> encodingParams st' = encodingParams st \<and> file_size st' = file_size st \<and>
     encodingGuess st' = encodingGuess st \<and> fileTextCodec st' = fileTextCodec st"

text \<open>
  The specification's offsets for single-byte line feeds: the byte position immediately after
  each \<open>LF\<close>, for bytes that start at file offset \<open>b\<close>.
\<close>

fun lf_offsets :: "int \<Rightarrow> byte list \<Rightarrow> int list" where
  "lf_offsets b [] = []"
| "lf_offsets b (x # xs) =
     (if x = LF then (b + 1) # lf_offsets (b + 1) xs else lf_offsets (b + 1) xs)"

text \<open>
  The codec that \<^verbatim>\<open>guessEncoding\<close> settles on for a block: the codec of the state if it has
  one, else the forced codec, else the guess of the store, else the guess of the state or of
  the detector.
\<close>

definition chosen_codec :: "env \<Rightarrow> byte list \<Rightarrow> IndexingData \<Rightarrow> IndexingState \<Rightarrow> codec" where
  "chosen_codec e block d state =
     (case fileTextCodec state of
        Some c \<Rightarrow> c
      | None \<Rightarrow>
          (case getForcedEncoding d of
             Some c \<Rightarrow> c
           | None \<Rightarrow>
               (case getEncodingGuess d of
                  Some c \<Rightarrow> c
                | None \<Rightarrow>
                    (case encodingGuess state of
                       None \<Rightarrow> detectEncoding e block
                     | Some g \<Rightarrow> g))))"

text \<open>
  The codec under which a full index reads a file: the forced codec, else what the detector
  says of the first block.
\<close>

definition effective_codec :: "env \<Rightarrow> codec option \<Rightarrow> byte list \<Rightarrow> codec" where
  "effective_codec e forcedEncoding bytes =
     (case forcedEncoding of
        Some c \<Rightarrow> c
      | None \<Rightarrow> detectEncoding e (take IndexingBlockSize bytes))"

text \<open>
  Blocks as the reader cuts them from a file of \<open>n\<close> bytes, the first at offset \<open>p\<close>: each is
  non-empty, lies within the file and begins where the one before ends.
\<close>

fun block_chain :: "nat \<Rightarrow> nat \<Rightarrow> BlockData list \<Rightarrow> bool" where
  "block_chain n p [] = True"
| "block_chain n p (blockData # rest) =
     (fst blockData = int p \<and> snd blockData \<noteq> [] \<and> p + length (snd blockData) \<le> n \<and>
      block_chain n (p + length (snd blockData)) rest)"

text \<open>
  What the reader puts out for a flag and a file: the data blocks, which the sentinel
  follows, form a chain from the position of the file; the file is left behind the bytes
  read; a flag that never gets set is never seen set; and unless the flag is set when the
  reader is done, the blocks hold the file from its position to its end.
\<close>

definition reader_shape :: "InterruptRequest \<Rightarrow> FileHandle \<Rightarrow> BlockData list \<Rightarrow> bool" where
  "reader_shape ir fh blocks \<longleftrightarrow>
     fst (readFileInBlocks ir fh) = blocks @ [(- 1, [])] \<and>
     block_chain (length (content fh)) (fpos fh) blocks \<and>
     content (snd (snd (readFileInBlocks ir fh))) = content fh \<and>
     fpos (snd (snd (readFileInBlocks ir fh))) = fpos fh + length (concat (map snd blocks)) \<and>
     (blocks \<noteq> [] \<longrightarrow>
        snd (hd blocks) = take IndexingBlockSize (drop (fpos fh) (content fh))) \<and>
     (ir = None \<longrightarrow> fst (snd (readFileInBlocks ir fh)) = None) \<and>
     (\<not> fst (interruptRequested (fst (snd (readFileInBlocks ir fh)))) \<longrightarrow>
        concat (map snd blocks) = drop (fpos fh) (content fh))"

section \<open>A failed allocation in the thread of the operation\<close>



section \<open>The order of the stored offsets\<close>


text \<open>
  The codec that a partial index parses with: the forced encoding of the store, else the
  guess it holds, else what the detector makes of the first block read from the indexed size.
\<close>

definition partial_codec :: "env \<Rightarrow> IndexingData \<Rightarrow> byte list \<Rightarrow> codec" where
  "partial_codec e d bytes =
     (case getForcedEncoding d of
        Some c \<Rightarrow> c
      | None \<Rightarrow>
          (case getEncodingGuess d of
             Some c \<Rightarrow> c
           | None \<Rightarrow> detectEncoding e (take IndexingBlockSize (drop (getIndexedSize d) bytes))))"


text \<open>The store that holds the single line \<^verbatim>\<open>a\n\<close>: one block of two bytes added.\<close>

definition store_of_one_line :: IndexingData where
  "store_of_one_line =
     addAll scenario_env (clear scenario_env empty_store) [0x61, 0x0A] 1
       \<lparr>offsets = [2], fakeFinalLF = False\<rparr> (Some ''UTF-8'')"


section \<open>The column of a tab\<close>




section \<open>The blocks read before an interrupt\<close>

text \<open>
  The first \<open>k\<close> blocks of a file from a position on, each with the position it begins at:
  what the reader has emitted when it finds the interrupt flag set at its next block boundary.
\<close>

fun first_blocks :: "byte list \<Rightarrow> nat \<Rightarrow> nat \<Rightarrow> BlockData list" where
  "first_blocks bytes p 0 = []"
| "first_blocks bytes p (Suc k) =
     (int p, take IndexingBlockSize (drop p bytes))
       # first_blocks bytes (p + IndexingBlockSize) k"

section \<open>The scanner finds the first genuine delimiter\<close>

lemma index_of_Some:
  "index_of c xs = Some n \<Longrightarrow> n < length xs \<and> xs ! n = c \<and> (\<forall>k<n. xs ! k \<noteq> c)"
proof (induction xs arbitrary: n)
  case Nil
  then show ?case by simp
next
  case (Cons x xs)
  show ?case
  proof (cases "x = c")
    case True
    with Cons.prems show ?thesis by simp
  next
    case False
    with Cons.prems obtain m where m: "index_of c xs = Some m" "n = Suc m"
      by auto
    from Cons.IH [OF m(1)] False m(2) show ?thesis
      by (auto simp: nth_Cons split: nat.splits)
  qed
qed

lemma index_of_None: "index_of c xs = None \<longleftrightarrow> c \<notin> set xs"
  by (induction xs) auto

lemma sv_find_Some:
  assumes "sv_find data c start = Some p"
  shows "start \<le> p \<and> p < length data \<and> data ! p = c \<and> (\<forall>k. start \<le> k \<and> k < p \<longrightarrow> data ! k \<noteq> c)"
proof -
  from assms obtain n where le: "start \<le> length data"
    and n: "index_of c (drop start data) = Some n" and p: "p = n + start"
    by (auto simp: sv_find_def split: if_splits)
  from index_of_Some [OF n] have a: "n < length data - start"
    and b: "drop start data ! n = c" and d: "\<forall>k<n. drop start data ! k \<noteq> c"
    by auto
  have "\<And>k. start \<le> k \<Longrightarrow> k < p \<Longrightarrow> data ! k \<noteq> c"
  proof -
    fix k assume k: "start \<le> k" "k < p"
    then have "k - start < n" using p by arith
    with d have "drop start data ! (k - start) \<noteq> c" by blast
    with le k show "data ! k \<noteq> c" by simp
  qed
  with a b le p show ?thesis by (simp add: add.commute)
qed

lemma sv_find_None:
  assumes "sv_find data c start = None" "start \<le> k" "k < length data"
  shows "data ! k \<noteq> c"
proof -
  from assms have "c \<notin> set (drop start data)"
    by (simp add: sv_find_def index_of_None split: if_splits)
  moreover have "data ! k = drop start data ! (k - start)"
    using assms(2,3) by simp
  moreover have "k - start < length (drop start data)"
    using assms(2,3) by simp
  ultimately show ?thesis
    by (metis nth_mem)
qed

lemma isNotDelimeter_iff:
  assumes "0 < lineFeedWidth ep" "p < length data"
  shows "isNotDelimeter ep data p \<longleftrightarrow> \<not> neighbourhood_zero ep data p"
proof (cases "lineFeedIndex ep = 0")
  case True
  note fwd = this
  show ?thesis
  proof (cases "p + lineFeedWidth ep > length data")
    case True
    with assms have "lineFeedWidth ep - 1 \<in> {1..<lineFeedWidth ep}"
      and "\<not> p + (lineFeedWidth ep - 1) < length data"
      by auto
    then have "\<not> (\<forall>i \<in> {1..<lineFeedWidth ep}. p + i < length data \<and> data ! (p + i) = 0)"
      by blast
    with fwd True show ?thesis
      by (simp add: isNotDelimeter_def neighbourhood_zero_def)
  next
    case False
    then have "\<forall>i \<in> {1..<lineFeedWidth ep}. p + i < length data" by auto
    with fwd False show ?thesis
      by (auto simp: isNotDelimeter_def neighbourhood_zero_def list_ex_iff)
  qed
next
  case False
  note bwd = this
  show ?thesis
  proof (cases "p < lineFeedWidth ep - 1")
    case True
    then have "lineFeedWidth ep - 1 \<in> {1..<lineFeedWidth ep}" and "\<not> lineFeedWidth ep - 1 \<le> p"
      by auto
    then have "\<not> (\<forall>i \<in> {1..<lineFeedWidth ep}. i \<le> p \<and> data ! (p - i) = 0)"
      by blast
    with bwd True show ?thesis
      by (simp add: isNotDelimeter_def neighbourhood_zero_def)
  next
    case False
    then have "\<forall>i \<in> {1..<lineFeedWidth ep}. i \<le> p" by auto
    with bwd False show ?thesis
      by (auto simp: isNotDelimeter_def neighbourhood_zero_def list_ex_iff)
  qed
qed

lemma multiByteLoop_result:
  assumes "0 < lineFeedWidth ep"
    and "nx = sv_find data d lo"
    and "\<forall>q<lo. data ! q = d \<longrightarrow> \<not> neighbourhood_zero ep data q"
  shows "scanner_result ep data d (multiByteLoop ep data d nx)"
  using assms
proof (induction ep data d nx arbitrary: lo rule: multiByteLoop.induct)
  case (1 ep data d nx)
  show ?case
  proof (cases nx)
    case None
    with "1.prems" have "\<forall>k. lo \<le> k \<and> k < length data \<longrightarrow> data ! k \<noteq> d"
      using sv_find_None by metis
    with "1.prems"(3) have "\<forall>q<length data. data ! q = d \<longrightarrow> \<not> neighbourhood_zero ep data q"
      by (metis not_le_imp_less)
    with None show ?thesis
      by (simp add: scanner_result_def multiByteLoop.simps)
  next
    case (Some p)
    with "1.prems" have f: "sv_find data d lo = Some p" by simp
    from sv_find_Some [OF f] have p: "lo \<le> p" "p < length data" "data ! p = d"
      and before: "\<forall>k. lo \<le> k \<and> k < p \<longrightarrow> data ! k \<noteq> d"
      by auto
    from before "1.prems"(3) have none: "\<forall>q<p. data ! q = d \<longrightarrow> \<not> neighbourhood_zero ep data q"
      by (metis not_le_imp_less)
    show ?thesis
    proof (cases "isNotDelimeter ep data p")
      case True
      with isNotDelimeter_iff [OF "1.prems"(1) p(2)] have "\<not> neighbourhood_zero ep data p"
        by simp
      with none have "\<forall>q<p + 1. data ! q = d \<longrightarrow> \<not> neighbourhood_zero ep data q"
        by (metis Suc_eq_plus1 less_Suc_eq)
      from "1.IH" [OF Some True "1.prems"(1) refl this]
      have "scanner_result ep data d (multiByteLoop ep data d (sv_find data d (p + 1)))" .
      with Some True show ?thesis
        by (subst multiByteLoop.simps) simp
    next
      case False
      with isNotDelimeter_iff [OF "1.prems"(1) p(2)] have "neighbourhood_zero ep data p"
        by simp
      with Some False p none show ?thesis
        by (subst multiByteLoop.simps) (simp add: scanner_result_def)
    qed
  qed
qed

lemma findNextMultiByteDelimeter_result:
  assumes "0 < lineFeedWidth ep"
  shows "scanner_result ep data d (findNextMultiByteDelimeter ep data d)"
proof -
  have "findNextMultiByteDelimeter ep data d = multiByteLoop ep data d (sv_find data d 0)"
    by (cases "sv_find data d 0")
      (simp_all add: findNextMultiByteDelimeter_def multiByteLoop.simps [of _ _ _ None])
  moreover have "scanner_result ep data d (multiByteLoop ep data d (sv_find data d 0))"
    by (rule multiByteLoop_result [OF assms refl]) simp
  ultimately show ?thesis
    by simp
qed

section \<open>The store: fingerprint size and hash builder\<close>

lemma store_tracks_clear: "store_tracks (clear e d) []"
  by (simp add: store_tracks_def clear_def empty_hash_def)

lemma store_tracks_op:
  "store_tracks d added \<Longrightarrow> store_tracks (apply_store_op e d x) (added_after added x)"
  by (cases x)
    (simp_all add: store_tracks_def clear_def empty_hash_def addAll_def Let_def
      setHeaderHash_def setTailHash_def setEncodingGuess_def forceEncoding_def setProgress_def)

lemma store_tracks_ops:
  "store_tracks d added \<Longrightarrow>
     store_tracks (foldl (apply_store_op e) d ops) (foldl added_after added ops)"
  by (induction ops arbitrary: d added) (simp_all add: store_tracks_op)

lemma readFileInBlocks_atEnd:
  "length (content fh) \<le> fpos fh \<Longrightarrow> readFileInBlocks ir fh = ([(- 1, [])], ir, fh)"
  by (subst readFileInBlocks.simps) (simp add: file_atEnd_def)

lemma readFileInBlocks_small:
  assumes "bytes \<noteq> []" "length bytes \<le> IndexingBlockSize"
  shows "readFileInBlocks None \<lparr>content = bytes, fpos = 0\<rparr> =
           ([(0, bytes), (- 1, [])], None, \<lparr>content = bytes, fpos = length bytes\<rparr>)"
  using assms
  by (subst readFileInBlocks.simps)
    (simp add: file_atEnd_def file_read_def Let_def readFileInBlocks_atEnd)

lemma readFileInBlocks_interrupted:
  "readFileInBlocks (Some 0) fh = ([(- 1, [])], Some 0, fh)"
  by (subst readFileInBlocks.simps) simp

lemma multiByteLoop_None: "multiByteLoop ep data d None = None"
  by (subst multiByteLoop.simps) simp

lemma multiByteLoop_Some:
  "multiByteLoop ep data d (Some p) =
     (if isNotDelimeter ep data p then multiByteLoop ep data d (sv_find data d (p + 1))
      else Some p)"
  by (subst multiByteLoop.simps) simp

text \<open>The definitions that a run on concrete bytes unfolds.\<close>

lemmas run_defs = FullIndexOperation_run_def FullIndexOperation_run_with_def doIndex_impl_def
  doIndex_def doIndex_rehashed_def doIndex_pipeline_def doIndex_fakeFinalLF_def doIndex_rehash_def
  doIndex_finish_def doIndex_openFailure_def initialState_def indexNextBlock_def
  guessEncoding_def parseDataBlock_def
  parseDataBlock_turn_def findNextLineFeed_def findNextSingleByteDelimeter_def
  findNextMultiByteDelimeter_def sv_find_def isNotDelimeter_def charOffsetWithinBlock_def
  getBeforeCrOffset_def addAll_def append_list_def clear_def forceEncoding_def
  setEncodingGuess_def setProgress_def getProgress_def getMaxLength_def getEncodingGuess_def
  getForcedEncoding_def setHeaderHash_def setTailHash_def calculateProgress_def
  file_read_def file_seek_def file_open_def empty_hash_def empty_positions_def
  scenario_env_def scenario_env_fast_def scenario_parameters_def empty_store_def
  LF_def TAB_def TabStop_def signed_divide_int_def signed_modulo_int_def Let_def
  IndexingBlockSize_def parseDataBlock_loop.simps expandTabsInLine.simps
  multiByteLoop_None multiByteLoop_Some upt_rec

text \<open>
  C6, as the code has it. At every point of the life of a store, that is after any sequence of
  operations of the mutating accessor on a cleared store, the \<open>size\<close> of the fingerprint is
  the number of bytes of the blocks added since the last clear. If fast modification
  detection was off at that clear, the bytes fed into the full-file hash builder are exactly
  the bytes of these blocks, so \<open>size\<close> is their number; if it was on, the builder has been
  fed nothing, while \<open>size\<close> still counts the bytes of every block added.
\<close>

theorem fingerprint_size_and_hash_builder:
  "store_tracks (foldl (apply_store_op e) (clear e0 d0) ops) (added_since_clear ops)"
  unfolding added_since_clear_def
  by (rule store_tracks_ops) (rule store_tracks_clear)

theorem fingerprint_size_and_hash_builder_witness:
  "store_tracks (foldl (apply_store_op scenario_env) (clear scenario_env empty_store)
      [AddAll [0x61, 0x0A] 1 \<lparr>offsets = [2], fakeFinalLF = False\<rparr> None, SetProgress 100,
       AddAll [0x62] 1 empty_positions None])
     [0x61, 0x0A, 0x62] \<and>
   hash_size (hash_m (foldl (apply_store_op scenario_env) (clear scenario_env empty_store)
      [AddAll [0x61, 0x0A] 1 \<lparr>offsets = [2], fakeFinalLF = False\<rparr> None, SetProgress 100,
       AddAll [0x62] 1 empty_positions None])) = 3 \<and>
   hashBuilder_m (foldl (apply_store_op scenario_env) (clear scenario_env empty_store)
      [AddAll [0x61, 0x0A] 1 \<lparr>offsets = [2], fakeFinalLF = False\<rparr> None, SetProgress 100,
       AddAll [0x62] 1 empty_positions None]) = [0x61, 0x0A, 0x62] \<and>
   store_tracks (foldl (apply_store_op scenario_env_fast) (clear scenario_env_fast empty_store)
      [AddAll [0x61, 0x0A] 1 \<lparr>offsets = [2], fakeFinalLF = False\<rparr> None])
     [0x61, 0x0A] \<and>
   hash_size (hash_m (foldl (apply_store_op scenario_env_fast)
      (clear scenario_env_fast empty_store)
      [AddAll [0x61, 0x0A] 1 \<lparr>offsets = [2], fakeFinalLF = False\<rparr> None])) = 2 \<and>
   hashBuilder_m (foldl (apply_store_op scenario_env_fast)
      (clear scenario_env_fast empty_store)
      [AddAll [0x61, 0x0A] 1 \<lparr>offsets = [2], fakeFinalLF = False\<rparr> None]) = []"
  using fingerprint_size_and_hash_builder [of scenario_env scenario_env empty_store
      "[AddAll [0x61, 0x0A] 1 \<lparr>offsets = [2], fakeFinalLF = False\<rparr> None, SetProgress 100,
        AddAll [0x62] 1 empty_positions None]"]
    fingerprint_size_and_hash_builder [of scenario_env_fast scenario_env_fast empty_store
      "[AddAll [0x61, 0x0A] 1 \<lparr>offsets = [2], fakeFinalLF = False\<rparr> None]"]
  by (simp add: added_since_clear_def addAll_def clear_def setProgress_def append_list_def
      empty_hash_def empty_positions_def scenario_env_def scenario_env_fast_def Let_def)

text \<open>
  C6 as stated fails with fast modification detection: a full index of the five bytes
  \<open>hello\<close> leaves the size 5 in the fingerprint and has fed no byte into the hash builder.
\<close>

theorem fingerprint_size_fast_mode_counterexample:
  "map_option (\<lambda>r. (hash_size (hash_m (fst r)), length (hashBuilder_m (fst r))))
     (FullIndexOperation_run scenario_env_fast
        (Some [0x68, 0x65, 0x6C, 0x6C, 0x6F]) None None empty_store) = Some (5, 0)"
  by (simp add: run_defs readFileInBlocks_small)

section \<open>Open failure\<close>

text \<open>
  C8, as the code has it. If the file cannot be opened, a full index and a partial index
  leave a cleared store whose encoding guess is the codec of the locale and whose progress is
  100, emit the progress events 0 and 100, and end with the result that the interrupt flag
  gives at that moment: \<open>Successful\<close> when no interrupt has been requested, \<open>Interrupted\<close>
  when one has.
\<close>

theorem open_failure_gives_empty_index:
  "FullIndexOperation_run e None interruptRequest forcedEncoding d =
     Some (setProgress (setEncodingGuess (clear e d) (Some (codecForLocale e))) 100,
           [IndexingProgressed 0, IndexingProgressed 100,
            IndexingFinished (\<not> fst (interruptRequested interruptRequest))],
           \<not> fst (interruptRequested interruptRequest)) \<and>
   PartialIndexOperation_run e None interruptRequest d =
     Some (setProgress (setEncodingGuess (clear e d) (Some (codecForLocale e))) 100,
           [IndexingProgressed 0, IndexingProgressed 100,
            IndexingFinished (\<not> fst (interruptRequested interruptRequest))],
           \<not> fst (interruptRequested interruptRequest)) \<and>
   getNbLines (setProgress (setEncodingGuess (clear e d) (Some (codecForLocale e))) 100) = 0"
  by (simp add: FullIndexOperation_run_def FullIndexOperation_run_with_def
      PartialIndexOperation_run_def PartialIndexOperation_run_with_def doIndex_impl_def
      doIndex_def doIndex_openFailure_def Let_def clear_def forceEncoding_def
      setEncodingGuess_def setProgress_def getNbLines_def empty_positions_def)

theorem open_failure_gives_empty_index_witness:
  "FullIndexOperation_run scenario_env None None None empty_store =
     Some (empty_store\<lparr>encodingGuess_m := Some ''System'', progress_m := 100\<rparr>,
           [IndexingProgressed 0, IndexingProgressed 100, IndexingFinished True], True)"
  using open_failure_gives_empty_index [of scenario_env None None empty_store]
  by (simp add: clear_def setEncodingGuess_def setProgress_def empty_store_def
      scenario_env_def)

text \<open>
  C8 as stated fails when an interrupt has been requested: the full index of a file that
  cannot be opened then ends with the result \<open>Interrupted\<close>.
\<close>

theorem open_failure_interrupted_counterexample:
  "map_option (\<lambda>r. snd (snd r))
     (FullIndexOperation_run scenario_env None (Some 0) None empty_store) = Some False"
  by (simp add: FullIndexOperation_run_def FullIndexOperation_run_with_def doIndex_impl_def
      doIndex_def doIndex_openFailure_def Let_def)

section \<open>The change check\<close>

lemma take_read_split:
  fixes xs :: "'a list"
  assumes "m \<le> k"
  shows "take m xs @ take (k - length (take m xs)) (drop (length (take m xs)) xs) = take k xs"
proof (cases "m \<le> length xs")
  case True
  then have "length (take m xs) = m" by simp
  moreover have "take m xs @ take (k - m) (drop m xs) = take (m + (k - m)) xs"
    by (simp add: take_add)
  ultimately show ?thesis using assms by simp
next
  case False
  with assms show ?thesis by simp
qed

lemma getDigest_loop_added:
  "fst (getDigest_loop fh indexedSize totalSize added) =
     added @ take (indexedSize - totalSize) (drop (fpos fh) (content fh))"
proof (induction fh indexedSize totalSize added rule: getDigest_loop.induct)
  case (1 fh indexedSize totalSize added)
  define m where "m = min IndexingBlockSize (indexedSize - totalSize)"
  define xs where "xs = drop (fpos fh) (content fh)"
  define rd where "rd = take m xs"
  have rd: "fst (file_read fh m) = rd"
    and fp: "fpos (snd (file_read fh m)) = fpos fh + length rd"
    and ct: "content (snd (file_read fh m)) = content fh"
    by (simp_all add: file_read_def rd_def xs_def Let_def)
  have mle: "m \<le> indexedSize - totalSize" by (simp add: m_def)
  show ?case
  proof (cases "0 < length rd \<and> totalSize + length rd < indexedSize")
    case True
    have "fst (getDigest_loop fh indexedSize totalSize added) =
          fst (getDigest_loop (snd (file_read fh m)) indexedSize (totalSize + length rd)
                 (added @ rd))"
      using True rd
      by (subst getDigest_loop.simps)
        (simp add: Let_def m_def [symmetric] del: length_greater_0_conv)
    also have "\<dots> = (added @ rd) @ take (indexedSize - (totalSize + length rd))
                        (drop (fpos fh + length rd) (content fh))"
      using "1.IH" [OF m_def [unfolded m_def] refl refl refl refl] True rd fp ct
      by (simp add: m_def [symmetric] del: length_greater_0_conv)
    also have "\<dots> = added @ take (indexedSize - totalSize) xs"
      using take_read_split [OF mle, of xs]
      by (simp add: rd_def xs_def add.commute)
    finally show ?thesis by (simp add: xs_def)
  next
    case False
    have res: "fst (getDigest_loop fh indexedSize totalSize added) =
                 (if 0 < length rd then added @ rd else added)"
      using False rd
      by (subst getDigest_loop.simps)
        (auto simp add: Let_def m_def [symmetric] simp del: length_greater_0_conv)
    have "take (indexedSize - totalSize) xs = rd"
    proof (cases "0 < length rd")
      case True
      with False have "indexedSize \<le> totalSize + length rd" by simp
      moreover have "length rd \<le> m" by (simp add: rd_def)
      ultimately have "m = indexedSize - totalSize" using mle by arith
      then show ?thesis by (simp add: rd_def)
    next
      case False
      then have "m = 0 \<or> xs = []" by (auto simp: rd_def)
      then have "indexedSize - totalSize = 0 \<or> xs = []"
        by (auto simp: m_def IndexingBlockSize_def min_def split: if_splits)
      with False show ?thesis by (auto simp: rd_def)
    qed
    with res show ?thesis by (auto simp: xs_def)
  qed
qed

lemma getDigest_loop_content:
  "content (snd (getDigest_loop fh indexedSize totalSize added)) = content fh"
proof (induction fh indexedSize totalSize added rule: getDigest_loop.induct)
  case (1 fh indexedSize totalSize added)
  define m where "m = min IndexingBlockSize (indexedSize - totalSize)"
  define rd where "rd = fst (file_read fh m)"
  have ct: "content (snd (file_read fh m)) = content fh"
    by (simp add: file_read_def Let_def)
  show ?case
  proof (cases "0 < length rd \<and> totalSize + length rd < indexedSize")
    case True
    have "content (snd (getDigest_loop fh indexedSize totalSize added)) =
          content (snd (getDigest_loop (snd (file_read fh m)) indexedSize
                     (totalSize + length rd) (added @ rd)))"
      using True
      by (subst getDigest_loop.simps)
        (simp add: Let_def m_def [symmetric] rd_def [symmetric] del: length_greater_0_conv)
    also have "\<dots> = content (snd (file_read fh m))"
      using "1.IH" [OF m_def [unfolded m_def] refl refl refl refl] True
      by (simp add: m_def [symmetric] rd_def [symmetric] del: length_greater_0_conv)
    finally show ?thesis using ct by simp
  next
    case False
    then show ?thesis
      using ct
      by (subst getDigest_loop.simps)
        (auto simp add: Let_def m_def [symmetric] rd_def [symmetric]
          simp del: length_greater_0_conv)
  qed
qed

lemma getDigest_value:
  "fst (getDigest e fh n) = fileDigest e (take n (drop (fpos fh) (content fh)))"
  by (simp add: getDigest_def Let_def getDigest_loop_added)

lemma getDigest_content: "content (snd (getDigest e fh n)) = content fh"
  by (simp add: getDigest_def Let_def getDigest_loop_content)

text \<open>
  C4. The change check classifies a file as the specification says: \<open>Truncated\<close> if the
  real file size is 0 or less than the size of the stored fingerprint, or the file fails to
  open, or the recomputed digest differs from the stored one (in fast mode the digest of the
  first \<open>headerSize\<close> bytes, then the digest of the \<open>tailSize\<close> bytes at \<open>tailOffset\<close>; in full
  mode the digest of the first \<open>size\<close> bytes); otherwise \<open>DataAdded\<close> if the real file size
  exceeds the size of the fingerprint and \<open>Unchanged\<close> if they are equal.
\<close>

theorem check_classifies_file:
  "doCheckFileChanges e realFileSize fileOnDisk d =
     change_classification e realFileSize fileOnDisk (getHash d)"
proof (cases fileOnDisk)
  case None
  then show ?thesis
    by (simp add: doCheckFileChanges_def change_classification_def Let_def)
next
  case (Some bytes)
  have "fst (getDigest e
          (file_seek (snd (getDigest e (file_open bytes) (headerSize (getHash d))))
             (tailOffset (getHash d)))
          (tailSize (getHash d))) =
        fileDigest e (take (tailSize (getHash d)) (drop (tailOffset (getHash d)) bytes))"
    using getDigest_content [of e "file_open bytes" "headerSize (getHash d)"]
    by (simp add: getDigest_value file_seek_def file_open_def)
  with Some show ?thesis
    by (simp add: doCheckFileChanges_def change_classification_def digest_differs_def Let_def
        getDigest_value file_open_def)
qed

theorem check_classifies_file_witness:
  "doCheckFileChanges scenario_env 3 (Some [0x61, 0x0A, 0x62])
     (addAll scenario_env empty_store [0x61, 0x0A] 1 \<lparr>offsets = [2], fakeFinalLF = False\<rparr> None)
     = DataAdded \<and>
   doCheckFileChanges scenario_env 2 (Some [0x61, 0x0A])
     (addAll scenario_env empty_store [0x61, 0x0A] 1 \<lparr>offsets = [2], fakeFinalLF = False\<rparr> None)
     = Unchanged \<and>
   doCheckFileChanges scenario_env 2 (Some [0x62, 0x0A])
     (addAll scenario_env empty_store [0x61, 0x0A] 1 \<lparr>offsets = [2], fakeFinalLF = False\<rparr> None)
     = Truncated \<and>
   doCheckFileChanges scenario_env 1 (Some [0x61])
     (addAll scenario_env empty_store [0x61, 0x0A] 1 \<lparr>offsets = [2], fakeFinalLF = False\<rparr> None)
     = Truncated"
  using check_classifies_file [of scenario_env 3 "Some [0x61, 0x0A, 0x62]"
      "addAll scenario_env empty_store [0x61, 0x0A] 1 \<lparr>offsets = [2], fakeFinalLF = False\<rparr> None"]
    check_classifies_file [of scenario_env 2 "Some [0x61, 0x0A]"
      "addAll scenario_env empty_store [0x61, 0x0A] 1 \<lparr>offsets = [2], fakeFinalLF = False\<rparr> None"]
    check_classifies_file [of scenario_env 2 "Some [0x62, 0x0A]"
      "addAll scenario_env empty_store [0x61, 0x0A] 1 \<lparr>offsets = [2], fakeFinalLF = False\<rparr> None"]
    check_classifies_file [of scenario_env 1 "Some [0x61]"
      "addAll scenario_env empty_store [0x61, 0x0A] 1 \<lparr>offsets = [2], fakeFinalLF = False\<rparr> None"]
  by (simp add: change_classification_def digest_differs_def getHash_def addAll_def
      empty_store_def empty_hash_def scenario_env_def scenario_digest_def Let_def)

section \<open>Parsing a block\<close>

lemma scanner_advance:
  assumes v: "valid_encoding ep"
    and f: "chosen_scanner ep ep view d = Some n"
  shows "1 \<le> int n - int (lineFeedIndex ep) + int (lineFeedWidth ep) \<and>
         int n - int (lineFeedIndex ep) + int (lineFeedWidth ep) \<le> int (length view)"
proof (cases "lineFeedWidth ep = 1")
  case True
  with f have "sv_find view d 0 = Some n"
    by (simp add: chosen_scanner_def findNextSingleByteDelimeter_def)
  from sv_find_Some [OF this] have "n < length view" by simp
  moreover from v True have "lineFeedIndex ep = 0" by (auto simp: valid_encoding_def)
  ultimately show ?thesis using True by simp
next
  case False
  with v have w: "1 < lineFeedWidth ep" by (auto simp: valid_encoding_def)
  from f False have "findNextMultiByteDelimeter ep view d = Some n"
    by (simp add: chosen_scanner_def)
  with findNextMultiByteDelimeter_result [of ep view d] w
  have n: "n < length view" and z: "neighbourhood_zero ep view n"
    by (simp_all add: scanner_result_def)
  have mem: "lineFeedWidth ep - 1 \<in> {1..<lineFeedWidth ep}" using w by auto
  show ?thesis
  proof (cases "lineFeedIndex ep = 0")
    case True
    with z mem have "n + (lineFeedWidth ep - 1) < length view"
      unfolding neighbourhood_zero_def by (metis (full_types))
    with True w show ?thesis by simp
  next
    case False
    with v have idx: "lineFeedIndex ep = lineFeedWidth ep - 1" by (simp add: valid_encoding_def)
    from z False mem have "lineFeedWidth ep - 1 \<le> n"
      unfolding neighbourhood_zero_def by (metis (full_types))
    with idx w n show ?thesis by simp
  qed
qed

lemma turn_general:
  assumes v: "valid_encoding (encodingParams st)"
    and le: "pos st \<le> bb + int (length block)"
  shows "same_frame st (snd (parseDataBlock_turn (chosen_scanner (encodingParams st)) bb block st)) \<and>
     (if fst (parseDataBlock_turn (chosen_scanner (encodingParams st)) bb block st)
      then pos (snd (parseDataBlock_turn (chosen_scanner (encodingParams st)) bb block st)) = pos st
      else max (pos st) bb < pos (snd (parseDataBlock_turn (chosen_scanner (encodingParams st)) bb block st)) \<and>
           pos (snd (parseDataBlock_turn (chosen_scanner (encodingParams st)) bb block st)) \<le> bb + int (length block))"
proof -
  define ep where "ep = encodingParams st"
  define p0 where "p0 = (if pos st \<ge> bb then pos st - bb else 0)"
  have p0: "0 \<le> p0" "p0 \<le> int (length block)" "max (pos st) bb = bb + p0"
    using le by (auto simp: p0_def)
  show ?thesis
  proof (cases "p0 = int (length block)")
    case True
    then show ?thesis
      by (simp add: parseDataBlock_turn_def p0_def [symmetric] same_frame_def Let_def)
  next
    case False
    define view where "view = take (nat (int (length block) - p0)) (drop (nat p0) block)"
    have lv: "int (length view) = int (length block) - p0"
      using p0 by (simp add: view_def)
    show ?thesis
    proof (cases "chosen_scanner ep ep view LF")
      case None
      with False show ?thesis
        by (simp add: parseDataBlock_turn_def p0_def [symmetric] ep_def [symmetric]
            findNextLineFeed_def view_def [symmetric] same_frame_def Let_def)
    next
      case (Some n)
      from scanner_advance [OF v [folded ep_def] Some] lv
      have adv: "1 \<le> int n - int (lineFeedIndex ep) + int (lineFeedWidth ep)"
        "int n - int (lineFeedIndex ep) + int (lineFeedWidth ep) \<le> int (length block) - p0"
        by simp_all
      have "pos (snd (parseDataBlock_turn (chosen_scanner ep) bb block st)) =
              bb + p0 + (int n - int (lineFeedIndex ep) + int (lineFeedWidth ep))"
        using False Some p0(1)
        by (simp add: parseDataBlock_turn_def p0_def [symmetric] ep_def [symmetric]
            findNextLineFeed_def view_def [symmetric] Let_def charOffsetWithinBlock_def
            getBeforeCrOffset_def)
      moreover have "\<not> fst (parseDataBlock_turn (chosen_scanner ep) bb block st)"
        and "same_frame st (snd (parseDataBlock_turn (chosen_scanner ep) bb block st))"
        using False Some
        by (simp_all add: parseDataBlock_turn_def p0_def [symmetric] ep_def [symmetric]
            findNextLineFeed_def view_def [symmetric] same_frame_def Let_def)
      ultimately show ?thesis
        using adv p0 by (simp add: ep_def)
    qed
  qed
qed


lemma same_frame_trans: "same_frame a b \<Longrightarrow> same_frame b c \<Longrightarrow> same_frame a c"
  by (simp add: same_frame_def)

lemma same_frame_refl: "same_frame a a"
  by (simp add: same_frame_def)

lemma parse_loop_general:
  assumes "valid_encoding (encodingParams st)"
  shows "\<exists>new st'. parseDataBlock_loop (chosen_scanner (encodingParams st)) bb block st acc =
            Some (acc @ new, st') \<and>
          sorted_wrt (<) new \<and>
          (\<forall>x\<in>set new. pos st < x \<and> x \<le> max (pos st) (bb + int (length block))) \<and>
          pos st' = last (pos st # new) \<and> same_frame st st'"
  using assms
proof (induction "nat (bb + int (length block) + 1 - pos st)" arbitrary: st acc rule: less_induct)
  case less
  let ?find = "chosen_scanner (encodingParams st)"
  show ?case
  proof (cases "pos st > bb + int (length block)")
    case True
    then have "parseDataBlock_loop ?find bb block st acc = Some (acc @ [], st)"
      by (subst parseDataBlock_loop.simps) simp
    then show ?thesis
      using same_frame_refl by fastforce
  next
    case False
    define st1 where "st1 = snd (parseDataBlock_turn ?find bb block st)"
    from False have le: "pos st \<le> bb + int (length block)" by simp
    note turn = turn_general [OF less.prems le, folded st1_def]
    show ?thesis
    proof (cases "fst (parseDataBlock_turn ?find bb block st)")
      case True
      with False have "parseDataBlock_loop ?find bb block st acc = Some (acc @ [], st1)"
        by (subst parseDataBlock_loop.simps) (simp add: Let_def st1_def)
      moreover from turn True have "pos st1 = pos st" "same_frame st st1" by simp_all
      ultimately show ?thesis by fastforce
    next
      case False
      note notEnd = this
      with turn have p1: "max (pos st) bb < pos st1" "pos st1 \<le> bb + int (length block)"
        and fr: "same_frame st st1"
        by simp_all
      from fr have ep: "encodingParams st1 = encodingParams st" by (simp add: same_frame_def)
      have smaller: "nat (bb + int (length block) + 1 - pos st1) < nat (bb + int (length block) + 1 - pos st)"
        using p1 by simp
      from less.hyps [OF smaller, of "acc @ [pos st1]"] less.prems ep
      obtain new1 st' where r: "parseDataBlock_loop ?find bb block st1 (acc @ [pos st1]) =
            Some ((acc @ [pos st1]) @ new1, st')"
        and so: "sorted_wrt (<) new1"
        and bd: "\<forall>x\<in>set new1. pos st1 < x \<and> x \<le> max (pos st1) (bb + int (length block))"
        and ps: "pos st' = last (pos st1 # new1)" and fr1: "same_frame st1 st'"
        by auto
      from \<open>\<not> bb + int (length block) < pos st\<close> notEnd r have "parseDataBlock_loop ?find bb block st acc = Some (acc @ (pos st1 # new1), st')"
        by (subst parseDataBlock_loop.simps) (simp add: Let_def st1_def)
      moreover have "sorted_wrt (<) (pos st1 # new1)" using so bd by simp
      moreover have "\<forall>x\<in>set (pos st1 # new1). pos st < x \<and> x \<le> max (pos st) (bb + int (length block))"
        using bd p1 by auto
      moreover have "pos st' = last (pos st # pos st1 # new1)" using ps by simp
      moreover have "same_frame st st'" using fr fr1 by (rule same_frame_trans)
      ultimately show ?thesis by blast
    qed
  qed
qed


lemma lf_offsets_append:
  "lf_offsets b (xs @ ys) = lf_offsets b xs @ lf_offsets (b + int (length xs)) ys"
  by (induction xs arbitrary: b) (simp_all add: add.assoc)

lemma length_lf_offsets: "length (lf_offsets b xs) = count_list xs LF"
  by (induction xs arbitrary: b) simp_all

lemma lf_offsets_bounds:
  "x \<in> set (lf_offsets b xs) \<Longrightarrow> b < x \<and> x \<le> b + int (length xs)"
  by (induction xs arbitrary: b) (fastforce split: if_splits)+

lemma lf_offsets_no_LF: "index_of LF xs = None \<Longrightarrow> lf_offsets b xs = []"
  by (induction xs arbitrary: b) (simp_all split: if_splits)

lemma lf_offsets_first_LF:
  "index_of LF xs = Some n \<Longrightarrow>
     lf_offsets b xs = (b + int n + 1) # lf_offsets (b + int n + 1) (drop (n + 1) xs)"
proof (induction xs arbitrary: b n)
  case Nil
  then show ?case by simp
next
  case (Cons x xs)
  show ?case
  proof (cases "x = LF")
    case True
    with Cons.prems show ?thesis by simp
  next
    case False
    with Cons.prems obtain m where m: "index_of LF xs = Some m" "n = Suc m" by auto
    from Cons.IH [OF m(1), of "b + 1"] False m(2) show ?thesis
      by (simp add: add.assoc add.commute add.left_commute)
  qed
qed

lemma turn_single:
  assumes w: "lineFeedWidth (encodingParams st) = 1" and i: "lineFeedIndex (encodingParams st) = 0"
    and le: "pos st \<le> bb + int (length block)"
  shows "fst (parseDataBlock_turn (chosen_scanner (encodingParams st)) bb block st) =
           (index_of LF (drop (nat (max (pos st) bb - bb)) block) = None) \<and>
         pos (snd (parseDataBlock_turn (chosen_scanner (encodingParams st)) bb block st)) =
           (case index_of LF (drop (nat (max (pos st) bb - bb)) block) of
              None \<Rightarrow> pos st
            | Some n \<Rightarrow> max (pos st) bb + int n + 1)"
proof -
  define p0 where "p0 = (if pos st \<ge> bb then pos st - bb else 0)"
  have p0: "0 \<le> p0" "p0 \<le> int (length block)" "max (pos st) bb = bb + p0"
    using le by (auto simp: p0_def)
  have sc: "chosen_scanner (encodingParams st) = findNextSingleByteDelimeter"
    using w by (simp add: chosen_scanner_def)
  show ?thesis
  proof (cases "p0 = int (length block)")
    case True
    then show ?thesis
      using p0
      by (simp add: parseDataBlock_turn_def p0_def [symmetric] Let_def)
  next
    case False
    have view: "take (nat (int (length block) - p0)) (drop (nat p0) block) = drop (nat p0) block"
      using p0 by simp
    show ?thesis
    proof (cases "index_of LF (drop (nat p0) block)")
      case None
      with False show ?thesis
        using p0
        by (simp add: parseDataBlock_turn_def p0_def [symmetric] sc
            findNextLineFeed_def view findNextSingleByteDelimeter_def sv_find_def Let_def)
    next
      case (Some n)
      with False show ?thesis
        using p0 w i
        by (simp add: parseDataBlock_turn_def p0_def [symmetric] sc
            findNextLineFeed_def view findNextSingleByteDelimeter_def sv_find_def Let_def
            charOffsetWithinBlock_def getBeforeCrOffset_def)
    qed
  qed
qed

lemma parse_loop_single:
  assumes "lineFeedWidth (encodingParams st) = 1" "lineFeedIndex (encodingParams st) = 0"
    and "pos st \<le> bb + int (length block)"
  shows "\<exists>st'. parseDataBlock_loop (chosen_scanner (encodingParams st)) bb block st acc =
            Some (acc @ lf_offsets (max (pos st) bb) (drop (nat (max (pos st) bb - bb)) block), st') \<and>
          pos st' = last (pos st # lf_offsets (max (pos st) bb) (drop (nat (max (pos st) bb - bb)) block)) \<and>
          same_frame st st'"
  using assms
proof (induction "nat (bb + int (length block) + 1 - pos st)" arbitrary: st acc rule: less_induct)
  case less
  let ?find = "chosen_scanner (encodingParams st)"
  let ?k = "nat (max (pos st) bb - bb)"
  define st1 where "st1 = snd (parseDataBlock_turn ?find bb block st)"
  have v: "valid_encoding (encodingParams st)"
    using less.prems by (simp add: valid_encoding_def)
  note tg = turn_general [OF v less.prems(3), folded st1_def]
  note ts = turn_single [OF less.prems, folded st1_def]
  from less.prems(3) have guard: "\<not> bb + int (length block) < pos st" by simp
  show ?case
  proof (cases "index_of LF (drop ?k block)")
    case None
    with ts have "fst (parseDataBlock_turn ?find bb block st)" "pos st1 = pos st" by simp_all
    with guard have "parseDataBlock_loop ?find bb block st acc = Some (acc @ [], st1)"
      by (subst parseDataBlock_loop.simps) (simp add: Let_def st1_def)
    moreover have "lf_offsets (max (pos st) bb) (drop ?k block) = []"
      using None by (rule lf_offsets_no_LF)
    moreover from tg have "same_frame st st1" by simp
    ultimately show ?thesis using \<open>pos st1 = pos st\<close> by simp
  next
    case (Some n)
    with ts have notEnd: "\<not> fst (parseDataBlock_turn ?find bb block st)"
      and p1: "pos st1 = max (pos st) bb + int n + 1" by simp_all
    from tg notEnd have le1: "pos st1 \<le> bb + int (length block)" and fr: "same_frame st st1"
      by simp_all
    from fr have ep: "encodingParams st1 = encodingParams st" by (simp add: same_frame_def)
    have "pos st < pos st1" using p1 by linarith
    then have smaller: "nat (bb + int (length block) + 1 - pos st1) < nat (bb + int (length block) + 1 - pos st)"
      using le1 by linarith
    have m1: "max (pos st1) bb = pos st1" using p1 by simp
    have k1: "nat (pos st1 - bb) = ?k + (n + 1)" using p1 by simp
    define rest where "rest = lf_offsets (pos st1) (drop (?k + (n + 1)) block)"
    have rest: "lf_offsets (max (pos st1) bb) (drop (nat (max (pos st1) bb - bb)) block) = rest"
      by (simp only: m1 k1 rest_def)
    have "\<exists>st'. parseDataBlock_loop (chosen_scanner (encodingParams st1)) bb block st1
              (acc @ [pos st1]) = Some ((acc @ [pos st1]) @ rest, st') \<and>
            pos st' = last (pos st1 # rest) \<and> same_frame st1 st'"
      using less.hyps [OF smaller _ _ le1, of "acc @ [pos st1]"] less.prems(1,2) ep
      unfolding rest by simp
    then obtain st' where r: "parseDataBlock_loop ?find bb block st1 (acc @ [pos st1]) =
            Some ((acc @ [pos st1]) @ rest, st')"
      and ps: "pos st' = last (pos st1 # rest)"
      and fr1: "same_frame st1 st'"
      unfolding ep by blast
    have split: "lf_offsets (max (pos st) bb) (drop ?k block) = pos st1 # rest"
      using lf_offsets_first_LF [OF Some, of "max (pos st) bb"] p1
      by (simp add: add.commute rest_def)
    from guard notEnd r have "parseDataBlock_loop ?find bb block st acc =
        Some (acc @ pos st1 # rest, st')"
      by (subst parseDataBlock_loop.simps) (simp add: Let_def st1_def)
    moreover have "same_frame st st'" using fr fr1 by (rule same_frame_trans)
    ultimately show ?thesis using split ps by simp
  qed
qed

section \<open>Indexing the blocks of the reader\<close>

lemma guessEncoding_fields:
  "fileTextCodec (guessEncoding e block d st) = Some (chosen_codec e block d st)"
  "encodingParams (guessEncoding e block d st) = encodingParametersOf e (chosen_codec e block d st)"
  "pos (guessEncoding e block d st) = pos st"
  "file_size (guessEncoding e block d st) = file_size st"
  "encodingGuess (guessEncoding e block d st) \<noteq> None"
  by (simp_all add: guessEncoding_def chosen_codec_def Let_def)

lemma parseDataBlock_loop_eq:
  "parseDataBlock bb block st =
     parseDataBlock_loop (chosen_scanner (encodingParams st)) bb block st []"
  by (simp add: parseDataBlock_def chosen_scanner_def Let_def)

lemma indexNextBlock_data:
  assumes av: "valid_encoding (encodingParametersOf e (chosen_codec e block d st))"
    and ne: "block \<noteq> []" and bb: "0 \<le> bb"
  shows "\<exists>new st2 d1 ev. indexNextBlock e st d (bb, block) = Some (st2, d1, ev) \<and>
      offsets (linePosition_m d1) = offsets (linePosition_m d) @ new \<and>
      \<not> fakeFinalLF (linePosition_m d1) \<and>
      sorted_wrt (<) new \<and>
      (\<forall>x\<in>set new. pos st < x \<and> x \<le> max (pos st) (bb + int (length block))) \<and>
      pos st2 = last (pos st # new) \<and> file_size st2 = file_size st \<and>
      fileTextCodec st2 = Some (chosen_codec e block d st) \<and>
      hash_size (hash_m d1) = hash_size (hash_m d) + length block \<and>
      (lineFeedWidth (encodingParametersOf e (chosen_codec e block d st)) = 1 \<and> pos st \<le> bb
         \<longrightarrow> new = lf_offsets bb block) \<and>
      LinesTooLongMessage \<notin> set ev"
proof -
  define st1 where "st1 = guessEncoding e block d st"
  define c where "c = chosen_codec e block d st"
  have f1: "fileTextCodec st1 = Some c" "encodingParams st1 = encodingParametersOf e c"
    "pos st1 = pos st" "file_size st1 = file_size st"
    by (simp_all add: st1_def c_def guessEncoding_fields)
  have v: "valid_encoding (encodingParams st1)" using av f1 by (simp add: c_def)
  from parse_loop_general [OF v, of bb block "[]"]
  obtain new st2 where r: "parseDataBlock bb block st1 = Some (new, st2)"
    and so: "sorted_wrt (<) new"
    and bd: "\<forall>x\<in>set new. pos st1 < x \<and> x \<le> max (pos st1) (bb + int (length block))"
    and ps: "pos st2 = last (pos st1 # new)" and fr: "same_frame st1 st2"
    by (auto simp: parseDataBlock_loop_eq)
  have single: "new = lf_offsets bb block"
    if w: "lineFeedWidth (encodingParametersOf e c) = 1" and le: "pos st \<le> bb"
  proof -
    from av w have i: "lineFeedIndex (encodingParams st1) = 0"
      by (auto simp: valid_encoding_def f1 c_def)
    from w have w1: "lineFeedWidth (encodingParams st1) = 1" by (simp add: f1)
    from le have le1: "pos st1 \<le> bb + int (length block)" by (simp add: f1)
    from parse_loop_single [OF w1 i le1, of "[]"] le r show ?thesis
      by (auto simp: parseDataBlock_loop_eq f1 max_def)
  qed
  define maxLength where "maxLength = (if max_length st2 > lineLengthMax e
                                     then lineLengthMax e else max_length st2)"
  define d1 where "d1 = addAll e d block maxLength \<lparr>offsets = new, fakeFinalLF = False\<rparr>
                               (encodingGuess st2)"
  define progress where "progress = (if file_size st2 > 0
                                    then calculateProgress (pos st2) (file_size st2)
                                    else 100)"
  have res: "indexNextBlock e st d (bb, block) =
      Some (st2, if progress \<noteq> getProgress d1 then setProgress d1 progress else d1,
            if progress \<noteq> getProgress d1 then [IndexingProgressed progress] else [])"
    using ne bb r
    by (simp add: indexNextBlock_def st1_def [symmetric] Let_def maxLength_def [symmetric]
        d1_def [symmetric] progress_def [symmetric])
  have d1: "offsets (linePosition_m d1) = offsets (linePosition_m d) @ new"
    "\<not> fakeFinalLF (linePosition_m d1)"
    "hash_size (hash_m d1) = hash_size (hash_m d) + length block"
    using ne by (simp_all add: d1_def addAll_def append_list_def Let_def)
  from fr f1 have f2: "file_size st2 = file_size st" "fileTextCodec st2 = Some c"
    by (simp_all add: same_frame_def)
  show ?thesis
    using res d1 so bd ps f2 single
    by (simp add: f1 c_def [symmetric] setProgress_def)
qed


lemma sorted_less_last:
  fixes xs :: "int list"
  shows "sorted_wrt (<) xs \<Longrightarrow> x \<in> set xs \<Longrightarrow> x \<le> last xs"
  by (induction xs) (auto simp: less_imp_le)

lemma last_cons_append: "last (a # xs @ ys) = last (last (a # xs) # ys)"
  by (cases ys) simp_all

lemma chosen_codec_fixed:
  "fileTextCodec st = Some c \<Longrightarrow> chosen_codec e block d st = c"
  by (simp add: chosen_codec_def)

lemma indexBlocks_sentinel: "indexBlocks e st d [(- 1, [])] = Some (st, d, [])"
  by (simp add: indexNextBlock_def)

lemma indexBlocks_chain:
  assumes chain: "block_chain n p blocks" and le: "pos st \<le> int p"
    and av: "case blocks of
               [] \<Rightarrow> True
             | b # _ \<Rightarrow> valid_encoding (encodingParametersOf e (chosen_codec e (snd b) d st))"
  shows "\<exists>new st2 d2 ev. indexBlocks e st d (blocks @ [(- 1, [])]) = Some (st2, d2, ev) \<and>
     offsets (linePosition_m d2) = offsets (linePosition_m d) @ new \<and>
     (blocks \<noteq> [] \<longrightarrow> \<not> fakeFinalLF (linePosition_m d2)) \<and>
     (blocks = [] \<longrightarrow> d2 = d \<and> st2 = st) \<and>
     sorted_wrt (<) new \<and> (\<forall>x\<in>set new. pos st < x \<and> x \<le> int n) \<and>
     pos st2 = last (pos st # new) \<and>
     pos st2 \<le> int p + int (length (concat (map snd blocks))) \<and>
     file_size st2 = file_size st \<and>
     hash_size (hash_m d2) = hash_size (hash_m d) + length (concat (map snd blocks)) \<and>
     ((case blocks of
         [] \<Rightarrow> True
       | b # _ \<Rightarrow> lineFeedWidth (encodingParametersOf e (chosen_codec e (snd b) d st)) = 1)
        \<longrightarrow> new = lf_offsets (int p) (concat (map snd blocks))) \<and>
     LinesTooLongMessage \<notin> set ev"
  using chain le av
proof (induction blocks arbitrary: st d p)
  case Nil
  then show ?case
    by (simp add: indexNextBlock_def)
next
  case (Cons b rest)
  obtain bb blk where b: "b = (bb, blk)" by (cases b)
  from Cons.prems(1) b have bb: "bb = int p" and ne: "blk \<noteq> []"
    and inside: "p + length blk \<le> n" and chain': "block_chain n (p + length blk) rest"
    by simp_all
  define c where "c = chosen_codec e blk d st"
  from Cons.prems(3) b have vc: "valid_encoding (encodingParametersOf e c)"
    by (simp add: c_def)
  from indexNextBlock_data [OF vc [unfolded c_def] ne, of bb] bb
  obtain new1 st1 d1 ev1 where r1: "indexNextBlock e st d (bb, blk) = Some (st1, d1, ev1)"
    and o1: "offsets (linePosition_m d1) = offsets (linePosition_m d) @ new1"
    and k1: "\<not> fakeFinalLF (linePosition_m d1)"
    and so1: "sorted_wrt (<) new1"
    and bd1: "\<forall>x\<in>set new1. pos st < x \<and> x \<le> max (pos st) (bb + int (length blk))"
    and ps1: "pos st1 = last (pos st # new1)" and fs1: "file_size st1 = file_size st"
    and cd1: "fileTextCodec st1 = Some c"
    and h1: "hash_size (hash_m d1) = hash_size (hash_m d) + length blk"
    and pr1: "lineFeedWidth (encodingParametersOf e c) = 1 \<and> pos st \<le> bb
                \<longrightarrow> new1 = lf_offsets bb blk"
    and ev1: "LinesTooLongMessage \<notin> set ev1"
    unfolding c_def by auto
  have up: "max (pos st) (bb + int (length blk)) = int p + int (length blk)"
    using Cons.prems(2) bb by simp
  have le1: "pos st1 \<le> int (p + length blk)"
  proof (cases "new1 = []")
    case True
    with ps1 Cons.prems(2) show ?thesis by simp
  next
    case False
    with ps1 have "pos st1 \<in> set new1" by simp
    with bd1 up show ?thesis by auto
  qed
  have mono1: "pos st \<le> pos st1"
  proof (cases "new1 = []")
    case True
    with ps1 show ?thesis by simp
  next
    case False
    with ps1 have "pos st1 \<in> set new1" by simp
    with bd1 show ?thesis by auto
  qed
  have vrest: "case rest of
                 [] \<Rightarrow> True
               | b # _ \<Rightarrow> valid_encoding (encodingParametersOf e (chosen_codec e (snd b) d1 st1))"
    using vc by (cases rest) (simp_all add: chosen_codec_fixed [OF cd1])
  from Cons.IH [OF chain' le1 vrest]
  obtain new2 st2 d2 ev2 where r2: "indexBlocks e st1 d1 (rest @ [(- 1, [])]) = Some (st2, d2, ev2)"
    and o2: "offsets (linePosition_m d2) = offsets (linePosition_m d1) @ new2"
    and k2: "rest \<noteq> [] \<longrightarrow> \<not> fakeFinalLF (linePosition_m d2)"
    and e2: "rest = [] \<longrightarrow> d2 = d1 \<and> st2 = st1"
    and so2: "sorted_wrt (<) new2"
    and bd2: "\<forall>x\<in>set new2. pos st1 < x \<and> x \<le> int n"
    and ps2: "pos st2 = last (pos st1 # new2)"
    and ub2: "pos st2 \<le> int (p + length blk) + int (length (concat (map snd rest)))"
    and fs2: "file_size st2 = file_size st1"
    and h2: "hash_size (hash_m d2) = hash_size (hash_m d1) + length (concat (map snd rest))"
    and pr2: "(case rest of
                 [] \<Rightarrow> True
               | b # _ \<Rightarrow> lineFeedWidth (encodingParametersOf e (chosen_codec e (snd b) d1 st1)) = 1)
              \<longrightarrow> new2 = lf_offsets (int (p + length blk)) (concat (map snd rest))"
    and ev2: "LinesTooLongMessage \<notin> set ev2"
    by blast
  have run: "indexBlocks e st d ((b # rest) @ [(- 1, [])]) = Some (st2, d2, ev1 @ ev2)"
    using r1 r2 b by simp
  have off: "offsets (linePosition_m d2) = offsets (linePosition_m d) @ (new1 @ new2)"
    using o1 o2 by simp
  have flag: "\<not> fakeFinalLF (linePosition_m d2)"
    using k1 k2 e2 by (cases "rest = []") simp_all
  have cross: "x < y" if "x \<in> set new1" "y \<in> set new2" for x y
  proof -
    from that(1) so1 have "x \<le> last new1" by (simp add: sorted_less_last)
    moreover from that(1) ps1 have "last new1 = pos st1" by auto
    moreover from that(2) bd2 have "pos st1 < y" by simp
    ultimately show ?thesis by simp
  qed
  have sorted: "sorted_wrt (<) (new1 @ new2)"
    using so1 so2 cross by (simp add: sorted_wrt_append)
  have bounds: "\<forall>x\<in>set (new1 @ new2). pos st < x \<and> x \<le> int n"
  proof
    fix x assume "x \<in> set (new1 @ new2)"
    then consider "x \<in> set new1" | "x \<in> set new2" by auto
    then show "pos st < x \<and> x \<le> int n"
    proof cases
      case 1
      with bd1 up inside show ?thesis by auto
    next
      case 2
      with bd2 mono1 show ?thesis by auto
    qed
  qed
  have lastp: "pos st2 = last (pos st # new1 @ new2)"
    using ps2 ps1 by (simp only: last_cons_append)
  have upper: "pos st2 \<le> int p + int (length (concat (map snd (b # rest))))"
    using ub2 b by simp
  have hash: "hash_size (hash_m d2) = hash_size (hash_m d) + length (concat (map snd (b # rest)))"
    using h1 h2 b by simp
  have precise: "new1 @ new2 = lf_offsets (int p) (concat (map snd (b # rest)))"
    if w: "lineFeedWidth (encodingParametersOf e c) = 1"
  proof -
    from pr1 w Cons.prems(2) bb have n1: "new1 = lf_offsets (int p) blk" by simp
    have "case rest of
            [] \<Rightarrow> True
          | b # _ \<Rightarrow> lineFeedWidth (encodingParametersOf e (chosen_codec e (snd b) d1 st1)) = 1"
      using w by (cases rest) (simp_all add: chosen_codec_fixed [OF cd1])
    with pr2 have "new2 = lf_offsets (int (p + length blk)) (concat (map snd rest))" by simp
    with n1 show ?thesis
      using b by (simp add: lf_offsets_append)
  qed
  show ?case
    using run off flag sorted bounds lastp upper hash precise ev1 ev2 fs1 fs2 b
    by (simp add: c_def)
qed


lemma interruptRequested_set:
  "fst (interruptRequested ir) \<Longrightarrow> ir = Some 0 \<and> snd (interruptRequested ir) = Some 0"
  by (cases ir rule: interruptRequested.cases) simp_all

lemma interruptRequested_stays:
  "fst (interruptRequested ir) \<Longrightarrow> fst (interruptRequested (snd (interruptRequested ir)))"
  by (cases ir rule: interruptRequested.cases) simp_all

lemma interruptRequested_never: "interruptRequested None = (False, None)"
  by simp

lemma readFileInBlocks_shape: "\<exists>blocks. reader_shape ir fh blocks"
proof (induction ir fh rule: readFileInBlocks.induct)
  case (1 ir fh)
  show ?case
  proof (cases "file_atEnd fh")
    case True
    then have "length (content fh) \<le> fpos fh" by (simp add: file_atEnd_def)
    then have "reader_shape ir fh []"
      by (simp add: reader_shape_def readFileInBlocks_atEnd)
    then show ?thesis ..
  next
    case False
    note notEnd = this
    show ?thesis
    proof (cases "fst (interruptRequested ir)")
      case True
      from interruptRequested_set [OF True] have "ir = Some 0" by simp
      then have "reader_shape ir fh []"
        by (simp add: reader_shape_def readFileInBlocks_interrupted)
      then show ?thesis ..
    next
      case False
      define blk where "blk = fst (file_read fh IndexingBlockSize)"
      define fh1 where "fh1 = snd (file_read fh IndexingBlockSize)"
      define ir1 where "ir1 = snd (interruptRequested ir)"
      have blk: "blk = take IndexingBlockSize (drop (fpos fh) (content fh))"
        and fh1: "content fh1 = content fh" "fpos fh1 = fpos fh + length blk"
        by (simp_all add: blk_def fh1_def file_read_def Let_def)
      from notEnd have lt: "fpos fh < length (content fh)" by (simp add: file_atEnd_def)
      then have ne: "blk \<noteq> []" by (simp add: blk IndexingBlockSize_def)
      have inside: "fpos fh + length blk \<le> length (content fh)"
        using lt by (simp add: blk)
      from "1.IH" [OF notEnd False refl] obtain rest where "reader_shape ir1 fh1 rest"
        unfolding ir1_def fh1_def ..
      then have r: "fst (readFileInBlocks ir1 fh1) = rest @ [(- 1, [])]"
        and ch: "block_chain (length (content fh1)) (fpos fh1) rest"
        and ct: "content (snd (snd (readFileInBlocks ir1 fh1))) = content fh1"
        and fp: "fpos (snd (snd (readFileInBlocks ir1 fh1))) = fpos fh1 + length (concat (map snd rest))"
        and nv: "ir1 = None \<longrightarrow> fst (snd (readFileInBlocks ir1 fh1)) = None"
        and al: "\<not> fst (interruptRequested (fst (snd (readFileInBlocks ir1 fh1)))) \<longrightarrow>
                   concat (map snd rest) = drop (fpos fh1) (content fh1)"
        by (simp_all add: reader_shape_def)
      have unf: "readFileInBlocks ir fh =
          ((int (fpos fh), blk) # fst (readFileInBlocks ir1 fh1), snd (readFileInBlocks ir1 fh1))"
        using notEnd False
        by (subst readFileInBlocks.simps) (simp add: Let_def blk_def fh1_def ir1_def)
      have irn: "ir = None \<longrightarrow> ir1 = None" by (auto simp: ir1_def)
      have whole: "blk @ drop (fpos fh + length blk) (content fh) = drop (fpos fh) (content fh)"
      proof -
        define xs where "xs = drop (fpos fh) (content fh)"
        have "drop (fpos fh + length blk) (content fh) = drop (length blk) xs"
          by (simp add: xs_def add.commute)
        moreover have "take IndexingBlockSize xs @ drop (length (take IndexingBlockSize xs)) xs = xs"
          by (cases "IndexingBlockSize \<le> length xs") (simp_all add: min_def)
        ultimately show ?thesis
          by (simp add: blk xs_def [symmetric])
      qed
      let ?blocks = "(int (fpos fh), blk) # rest"
      let ?r = "readFileInBlocks ir fh"
      have c1: "fst ?r = ?blocks @ [(- 1, [])]"
        using unf r by simp
      have c2: "block_chain (length (content fh)) (fpos fh) ?blocks"
        using ch ne inside fh1 by simp
      have c3: "content (snd (snd ?r)) = content fh"
        using unf ct fh1 by simp
      have c4: "fpos (snd (snd ?r)) = fpos fh + length (concat (map snd ?blocks))"
        using unf fp fh1 by simp
      have c5: "?blocks \<noteq> [] \<longrightarrow>
                  snd (hd ?blocks) = take IndexingBlockSize (drop (fpos fh) (content fh))"
        using blk by simp
      have c6: "ir = None \<longrightarrow> fst (snd ?r) = None"
      proof
        assume "ir = None"
        with irn nv have "fst (snd (readFileInBlocks ir1 fh1)) = None" by simp
        with unf show "fst (snd ?r) = None" by simp
      qed
      have c7: "\<not> fst (interruptRequested (fst (snd ?r))) \<longrightarrow>
                  concat (map snd ?blocks) = drop (fpos fh) (content fh)"
        using unf al whole fh1 by simp
      have "reader_shape ir fh ?blocks"
        unfolding reader_shape_def using c1 c2 c3 c4 c5 c6 c7 by (intro conjI)
      then show ?thesis ..
    qed
  qed
qed

section \<open>The outcome of a full index\<close>

lemma doIndex_pipeline_full:
  assumes v: "valid_encoding (encodingParametersOf e (effective_codec e forced bytes))"
    and d1: "d1 = forceEncoding (clear e d) forced"
    and rd: "rd = readFileInBlocks ir \<lparr>content = bytes, fpos = 0\<rparr>"
  shows "\<exists>st d2 ev new. doIndex_pipeline e bytes ir d1 0 =
           Some (st, d2, ev, fst (snd rd), snd (snd rd)) \<and>
     linePosition_m d2 = \<lparr>offsets = new, fakeFinalLF = False\<rparr> \<and>
     sorted_wrt (<) new \<and> (\<forall>x\<in>set new. 0 < x \<and> x \<le> int (length bytes)) \<and>
     pos st = last (0 # new) \<and> file_size st = int (length bytes) \<and>
     hash_size (hash_m d2) = fpos (snd (snd rd)) \<and> content (snd (snd rd)) = bytes \<and>
     (\<not> fst (interruptRequested (fst (snd rd))) \<longrightarrow>
        hash_size (hash_m d2) = length bytes \<and>
        (lineFeedWidth (encodingParametersOf e (effective_codec e forced bytes)) = 1
           \<longrightarrow> new = lf_offsets 0 bytes)) \<and>
     (ir = None \<longrightarrow> fst (snd rd) = None) \<and>
     LinesTooLongMessage \<notin> set ev"
proof -
  define st0 where "st0 = initialState d1 0 (int (length bytes))"
  define fh0 where "fh0 = \<lparr>content = bytes, fpos = 0\<rparr>"
  have st0: "pos st0 = 0" "file_size st0 = int (length bytes)"
    "fileTextCodec st0 = forced" "encodingGuess st0 = None"
    by (simp_all add: st0_def initialState_def d1 getEncodingGuess_def getForcedEncoding_def
        forceEncoding_def clear_def split: option.splits)
  have d1f: "linePosition_m d1 = \<lparr>offsets = [], fakeFinalLF = False\<rparr>"
    "hash_size (hash_m d1) = 0" "getForcedEncoding d1 = forced" "getEncodingGuess d1 = None"
    by (simp_all add: d1 forceEncoding_def clear_def empty_positions_def empty_hash_def
        getForcedEncoding_def getEncodingGuess_def)
  have cc: "chosen_codec e blk d1 st0 =
              (case forced of Some c \<Rightarrow> c | None \<Rightarrow> detectEncoding e blk)" for blk
    by (simp add: chosen_codec_def st0 d1f split: option.splits)
  from readFileInBlocks_shape [of ir fh0] obtain blocks where "reader_shape ir fh0 blocks" ..
  then have r: "fst rd = blocks @ [(- 1, [])]"
    and ch: "block_chain (length bytes) 0 blocks"
    and ct: "content (snd (snd rd)) = bytes"
    and fp: "fpos (snd (snd rd)) = length (concat (map snd blocks))"
    and hd: "blocks \<noteq> [] \<longrightarrow> snd (hd blocks) = take IndexingBlockSize bytes"
    and nv: "ir = None \<longrightarrow> fst (snd rd) = None"
    and al: "\<not> fst (interruptRequested (fst (snd rd))) \<longrightarrow> concat (map snd blocks) = bytes"
    by (simp_all add: reader_shape_def rd fh0_def)
  have first: "chosen_codec e (snd b) d1 st0 = effective_codec e forced bytes"
    if "blocks = b # rest" for b rest
    using hd that by (simp add: cc effective_codec_def)
  have av: "case blocks of
              [] \<Rightarrow> True
            | b # _ \<Rightarrow> valid_encoding (encodingParametersOf e (chosen_codec e (snd b) d1 st0))"
    using v first by (cases blocks) simp_all
  have le: "pos st0 \<le> int 0" by (simp add: st0)
  from indexBlocks_chain [OF ch le av]
  obtain new st2 d2 ev where run: "indexBlocks e st0 d1 (blocks @ [(- 1, [])]) = Some (st2, d2, ev)"
    and off: "offsets (linePosition_m d2) = offsets (linePosition_m d1) @ new"
    and fl: "blocks \<noteq> [] \<longrightarrow> \<not> fakeFinalLF (linePosition_m d2)"
    and em: "blocks = [] \<longrightarrow> d2 = d1 \<and> st2 = st0"
    and so: "sorted_wrt (<) new" and bd: "\<forall>x\<in>set new. pos st0 < x \<and> x \<le> int (length bytes)"
    and ps: "pos st2 = last (pos st0 # new)"
    and fs: "file_size st2 = file_size st0"
    and hs: "hash_size (hash_m d2) = hash_size (hash_m d1) + length (concat (map snd blocks))"
    and pr: "(case blocks of
                [] \<Rightarrow> True
              | b # _ \<Rightarrow> lineFeedWidth (encodingParametersOf e (chosen_codec e (snd b) d1 st0)) = 1)
             \<longrightarrow> new = lf_offsets (int 0) (concat (map snd blocks))"
    and ev: "LinesTooLongMessage \<notin> set ev"
    by blast
  have pipe: "doIndex_pipeline e bytes ir d1 0 = Some (st2, d2, ev, fst (snd rd), snd (snd rd))"
    using run r
    by (simp add: doIndex_pipeline_def Let_def st0_def [symmetric] st0 file_seek_def
        file_open_def rd [symmetric])
  have lp: "linePosition_m d2 = \<lparr>offsets = new, fakeFinalLF = False\<rparr>"
    using off fl em d1f by (cases "blocks = []") simp_all
  have whole: "hash_size (hash_m d2) = length bytes \<and>
        (lineFeedWidth (encodingParametersOf e (effective_codec e forced bytes)) = 1
           \<longrightarrow> new = lf_offsets 0 bytes)"
    if "\<not> fst (interruptRequested (fst (snd rd)))"
  proof -
    from that al have all: "concat (map snd blocks) = bytes" by simp
    have "new = lf_offsets 0 bytes"
      if w: "lineFeedWidth (encodingParametersOf e (effective_codec e forced bytes)) = 1"
    proof -
      have "case blocks of
              [] \<Rightarrow> True
            | b # _ \<Rightarrow> lineFeedWidth (encodingParametersOf e (chosen_codec e (snd b) d1 st0)) = 1"
        using w first by (cases blocks) simp_all
      with pr all show ?thesis by simp
    qed
    with hs all d1f show ?thesis by simp
  qed
  show ?thesis
    using pipe lp so bd ps fs hs fp ct whole nv ev st0 d1f
    by (intro exI [of _ st2] exI [of _ d2] exI [of _ ev] exI [of _ new]) simp
qed


lemma doIndex_fakeFinalLF_fields:
  "hash_m (doIndex_fakeFinalLF e i st d) = hash_m d"
  "linePosition_m (doIndex_fakeFinalLF e i st d) =
     (if \<not> i \<and> file_size st > pos st
      then \<lparr>offsets = offsets (linePosition_m d) @ [file_size st + 1], fakeFinalLF = True\<rparr>
      else linePosition_m d)"
  by (simp_all add: doIndex_fakeFinalLF_def addAll_def append_list_def Let_def)

lemma doIndex_rehash_fields:
  "linePosition_m (doIndex_rehash e fh d) = linePosition_m d"
  "hash_size (hash_m (doIndex_rehash e fh d)) = hash_size (hash_m d)"
  by (simp_all add: doIndex_rehash_def setHeaderHash_def setTailHash_def Let_def)

lemma doIndex_finish_fields:
  "i \<Longrightarrow> linePosition_m (fst (doIndex_finish e i d)) = empty_positions"
  "LinesTooLongMessage \<in> set (snd (doIndex_finish e i d)) \<Longrightarrow>
     linePosition_m (fst (doIndex_finish e i d)) = empty_positions"
  "\<not> i \<Longrightarrow> LinesTooLongMessage \<notin> set (snd (doIndex_finish e i d)) \<Longrightarrow>
     linePosition_m (fst (doIndex_finish e i d)) = linePosition_m d \<and>
     hash_m (fst (doIndex_finish e i d)) = hash_m d"
  by (simp_all add: doIndex_finish_def Let_def clear_def setEncodingGuess_def getMaxLength_def
      getEncodingGuess_def split: if_splits)

lemma last_lf_offsets_below:
  "last (b # lf_offsets b xs) < b + int (length xs) \<longleftrightarrow> xs \<noteq> [] \<and> last xs \<noteq> LF"
proof (induction xs rule: rev_induct)
  case Nil
  then show ?case by simp
next
  case (snoc x xs)
  have le: "last (b # lf_offsets b xs) \<le> b + int (length xs)"
  proof (cases "lf_offsets b xs = []")
    case True
    then show ?thesis by simp
  next
    case False
    then have "last (lf_offsets b xs) \<in> set (lf_offsets b xs)" by simp
    from lf_offsets_bounds [OF this] False show ?thesis by simp
  qed
  show ?case
  proof (cases "x = LF")
    case True
    then show ?thesis by (simp add: lf_offsets_append)
  next
    case False
    with le show ?thesis by (simp add: lf_offsets_append)
  qed
qed

lemma full_index_outcome:
  assumes v: "valid_encoding (encodingParametersOf e (effective_codec e forced bytes))"
  shows "\<exists>d' evs res new.
     FullIndexOperation_run e (Some bytes) ir forced d = Some (d', evs, res) \<and>
     sorted_wrt (<) new \<and> (\<forall>x\<in>set new. 0 < x \<and> x \<le> int (length bytes)) \<and>
     (linePosition_m d' = empty_positions \<or>
      linePosition_m d' = \<lparr>offsets = new, fakeFinalLF = False\<rparr> \<or>
      linePosition_m d' = \<lparr>offsets = new @ [int (length bytes) + 1], fakeFinalLF = True\<rparr>) \<and>
     (ir = None \<longrightarrow> res) \<and>
     (res \<and> LinesTooLongMessage \<notin> set evs \<longrightarrow>
        getIndexedSize d' = length bytes \<and>
        linePosition_m d' =
          (if int (length bytes) > last (0 # new)
           then \<lparr>offsets = new @ [int (length bytes) + 1], fakeFinalLF = True\<rparr>
           else \<lparr>offsets = new, fakeFinalLF = False\<rparr>) \<and>
        (lineFeedWidth (encodingParametersOf e (effective_codec e forced bytes)) = 1
           \<longrightarrow> new = lf_offsets 0 bytes))"
proof -
  define d1 where "d1 = forceEncoding (clear e d) forced"
  define rd where "rd = readFileInBlocks ir \<lparr>content = bytes, fpos = 0\<rparr>"
  define ir1 where "ir1 = fst (snd rd)"
  define fh1 where "fh1 = snd (snd rd)"
  from doIndex_pipeline_full [OF v d1_def rd_def]
  obtain st d2 ev new where pipe: "doIndex_pipeline e bytes ir d1 0 = Some (st, d2, ev, ir1, fh1)"
    and lp: "linePosition_m d2 = \<lparr>offsets = new, fakeFinalLF = False\<rparr>"
    and so: "sorted_wrt (<) new" and bd: "\<forall>x\<in>set new. 0 < x \<and> x \<le> int (length bytes)"
    and ps: "pos st = last (0 # new)" and fs: "file_size st = int (length bytes)"
    and whole: "\<not> fst (interruptRequested ir1) \<longrightarrow>
        hash_size (hash_m d2) = length bytes \<and>
        (lineFeedWidth (encodingParametersOf e (effective_codec e forced bytes)) = 1
           \<longrightarrow> new = lf_offsets 0 bytes)"
    and nv: "ir = None \<longrightarrow> ir1 = None"
    and ev: "LinesTooLongMessage \<notin> set ev"
    unfolding ir1_def fh1_def by blast
  define i1 where "i1 = fst (interruptRequested ir1)"
  define ir2 where "ir2 = snd (interruptRequested ir1)"
  define i2 where "i2 = fst (interruptRequested ir2)"
  define ir3 where "ir3 = snd (interruptRequested ir2)"
  define res where "res = (\<not> fst (interruptRequested ir3))"
  define d3 where "d3 = doIndex_fakeFinalLF e i1 st d2"
  define d4 where "d4 = doIndex_rehash e fh1 d3"
  define fin where "fin = doIndex_finish e i2 d4"
  have run: "FullIndexOperation_run e (Some bytes) ir forced d =
      Some (fst fin, IndexingProgressed 0 # (ev @ snd fin) @ [IndexingFinished res], res)"
    using pipe
    by (simp add: FullIndexOperation_run_def FullIndexOperation_run_with_def doIndex_impl_def
        doIndex_def doIndex_rehashed_def Let_def d1_def [symmetric] i1_def [symmetric]
        ir2_def [symmetric] i2_def [symmetric] ir3_def [symmetric] res_def
        d3_def [symmetric] d4_def [symmetric] fin_def [symmetric])
  have lp4: "linePosition_m d4 =
      (if \<not> i1 \<and> int (length bytes) > last (0 # new)
       then \<lparr>offsets = new @ [int (length bytes) + 1], fakeFinalLF = True\<rparr>
       else \<lparr>offsets = new, fakeFinalLF = False\<rparr>)"
    and hs4: "hash_size (hash_m d4) = hash_size (hash_m d2)"
    by (simp_all add: d4_def d3_def doIndex_rehash_fields doIndex_fakeFinalLF_fields lp ps fs)
  have shape: "linePosition_m (fst fin) = empty_positions \<or>
      linePosition_m (fst fin) = \<lparr>offsets = new, fakeFinalLF = False\<rparr> \<or>
      linePosition_m (fst fin) = \<lparr>offsets = new @ [int (length bytes) + 1], fakeFinalLF = True\<rparr>"
  proof (cases "i2 \<or> LinesTooLongMessage \<in> set (snd fin)")
    case True
    then have "linePosition_m (fst fin) = empty_positions"
      using doIndex_finish_fields(1,2) [where i=i2 and e=e and d=d4] by (auto simp: fin_def)
    then show ?thesis by simp
  next
    case False
    then have "\<not> i2" and "LinesTooLongMessage \<notin> set (snd (doIndex_finish e i2 d4))"
      unfolding fin_def by blast+
    from doIndex_finish_fields(3) [OF this]
    have "linePosition_m (fst fin) = linePosition_m d4"
      by (simp add: fin_def)
    with lp4 show ?thesis by simp
  qed
  have never: "res" if "ir = None"
    using that nv by (simp add: res_def ir3_def ir2_def)
  have good: "getIndexedSize (fst fin) = length bytes \<and>
        linePosition_m (fst fin) =
          (if int (length bytes) > last (0 # new)
           then \<lparr>offsets = new @ [int (length bytes) + 1], fakeFinalLF = True\<rparr>
           else \<lparr>offsets = new, fakeFinalLF = False\<rparr>) \<and>
        (lineFeedWidth (encodingParametersOf e (effective_codec e forced bytes)) = 1
           \<longrightarrow> new = lf_offsets 0 bytes)"
    if r: "res" and t: "LinesTooLongMessage \<notin> set (snd fin)"
  proof -
    have n2: "\<not> i2"
      using r interruptRequested_stays [of ir2] by (auto simp: res_def ir3_def i2_def)
    have n1: "\<not> i1"
      using n2 interruptRequested_stays [of ir1] by (auto simp: i2_def ir2_def i1_def)
    from doIndex_finish_fields(3) [OF n2 t [unfolded fin_def]]
    have "linePosition_m (fst fin) = linePosition_m d4" "hash_m (fst fin) = hash_m d4"
      by (simp_all add: fin_def)
    with lp4 hs4 n1 whole show ?thesis
      by (simp add: getIndexedSize_def i1_def)
  qed
  show ?thesis
    using run so bd shape never good ev
    by (intro exI [of _ "fst fin"] exI [of _ res] exI [of _ new]
        exI [of _ "IndexingProgressed 0 # (ev @ snd fin) @ [IndexingFinished res]"]) auto
qed

section \<open>Line counts and offsets\<close>

text \<open>
  C1, as the code has it. Under an encoding whose line feed width is 1, a full index that no
  interrupt disturbs returns and reports \<open>Successful\<close>. Unless it has shown the message
  that some lines are too long, and cleared the store, the number of lines it leaves is the
  number of \<open>LF\<close> bytes of the file, plus one if and only if the file is non-empty and its
  last byte is not \<open>LF\<close>; exactly in that case the flag for a fake final LF is set, and the
  last offset is then the file size plus one.
\<close>

theorem line_count_single_byte:
  assumes "valid_encoding (encodingParametersOf e (effective_codec e forcedEncoding bytes))"
    and "lineFeedWidth (encodingParametersOf e (effective_codec e forcedEncoding bytes)) = 1"
  shows "\<exists>d' events.
     FullIndexOperation_run e (Some bytes) None forcedEncoding d = Some (d', events, True) \<and>
     (LinesTooLongMessage \<notin> set events \<longrightarrow>
        getNbLines d' =
          count_list bytes LF + (if bytes \<noteq> [] \<and> last bytes \<noteq> LF then 1 else 0) \<and>
        fakeFinalLF (linePosition_m d') = (bytes \<noteq> [] \<and> last bytes \<noteq> LF) \<and>
        (bytes \<noteq> [] \<and> last bytes \<noteq> LF \<longrightarrow>
           last (offsets (linePosition_m d')) = int (length bytes) + 1))"
proof -
  from full_index_outcome [OF assms(1), of None d]
  obtain d' evs res new where run: "FullIndexOperation_run e (Some bytes) None forcedEncoding d = Some (d', evs, res)"
    and res: "res"
    and good: "res \<and> LinesTooLongMessage \<notin> set evs \<longrightarrow>
        getIndexedSize d' = length bytes \<and>
        linePosition_m d' =
          (if int (length bytes) > last (0 # new)
           then \<lparr>offsets = new @ [int (length bytes) + 1], fakeFinalLF = True\<rparr>
           else \<lparr>offsets = new, fakeFinalLF = False\<rparr>) \<and>
        (lineFeedWidth (encodingParametersOf e (effective_codec e forcedEncoding bytes)) = 1
           \<longrightarrow> new = lf_offsets 0 bytes)"
    by blast
  have "getNbLines d' =
          count_list bytes LF + (if bytes \<noteq> [] \<and> last bytes \<noteq> LF then 1 else 0) \<and>
        fakeFinalLF (linePosition_m d') = (bytes \<noteq> [] \<and> last bytes \<noteq> LF) \<and>
        (bytes \<noteq> [] \<and> last bytes \<noteq> LF \<longrightarrow>
           last (offsets (linePosition_m d')) = int (length bytes) + 1)"
    if "LinesTooLongMessage \<notin> set evs"
  proof -
    from good res that assms(2) have new: "new = lf_offsets 0 bytes"
      and lp: "linePosition_m d' =
          (if int (length bytes) > last (0 # new)
           then \<lparr>offsets = new @ [int (length bytes) + 1], fakeFinalLF = True\<rparr>
           else \<lparr>offsets = new, fakeFinalLF = False\<rparr>)"
      by simp_all
    have "int (length bytes) > last (0 # new) \<longleftrightarrow> bytes \<noteq> [] \<and> last bytes \<noteq> LF"
      using last_lf_offsets_below [of 0 bytes] by (simp add: new)
    with lp show ?thesis
      by (simp add: getNbLines_def new length_lf_offsets)
  qed
  moreover from run res
  have "FullIndexOperation_run e (Some bytes) None forcedEncoding d = Some (d', evs, True)"
    by simp
  ultimately show ?thesis by blast
qed


theorem line_count_single_byte_witness:
  "valid_encoding (encodingParametersOf scenario_env
     (effective_codec scenario_env None [0x61, 0x0A, 0x62])) \<and>
   lineFeedWidth (encodingParametersOf scenario_env
     (effective_codec scenario_env None [0x61, 0x0A, 0x62])) = 1 \<and>
   map_option (\<lambda>r. (getNbLines (fst r), offsets (linePosition_m (fst r)),
                      fakeFinalLF (linePosition_m (fst r)),
                      LinesTooLongMessage \<in> set (fst (snd r)), snd (snd r)))
     (FullIndexOperation_run scenario_env (Some [0x61, 0x0A, 0x62]) None None empty_store) =
     Some (2, [2, 4], True, False, True)"
proof -
  have v: "valid_encoding (encodingParametersOf scenario_env
     (effective_codec scenario_env None [0x61, 0x0A, 0x62]))"
    and w: "lineFeedWidth (encodingParametersOf scenario_env
     (effective_codec scenario_env None [0x61, 0x0A, 0x62])) = 1"
    by (simp_all add: effective_codec_def valid_encoding_def scenario_env_def
        scenario_parameters_def)
  have ev: "map_option (\<lambda>r. (offsets (linePosition_m (fst r)),
                      LinesTooLongMessage \<in> set (fst (snd r))))
     (FullIndexOperation_run scenario_env (Some [0x61, 0x0A, 0x62]) None None empty_store) =
     Some ([2, 4], False)"
    by (simp add: run_defs readFileInBlocks_small)
  from line_count_single_byte [OF v w, of empty_store] ev v w show ?thesis
    by (auto simp: getNbLines_def LF_def)
qed

section \<open>Resuming from the indexed size\<close>


lemma doIndex_pipeline_partial:
  assumes v: "valid_encoding (encodingParametersOf e (partial_codec e d bytes))"
    and rd: "rd = readFileInBlocks ir \<lparr>content = bytes, fpos = getIndexedSize d\<rparr>"
  shows "\<exists>st d2 ev new. doIndex_pipeline e bytes ir d (int (getIndexedSize d)) =
           Some (st, d2, ev, fst (snd rd), snd (snd rd)) \<and>
     offsets (linePosition_m d2) = offsets (linePosition_m d) @ new \<and>
     (fakeFinalLF (linePosition_m d2) \<longrightarrow> fakeFinalLF (linePosition_m d)) \<and>
     sorted_wrt (<) new \<and>
     (\<forall>x\<in>set new. int (getIndexedSize d) < x \<and> x \<le> int (length bytes)) \<and>
     pos st = last (int (getIndexedSize d) # new) \<and> file_size st = int (length bytes) \<and>
     getIndexedSize d2 = fpos (snd (snd rd)) \<and> content (snd (snd rd)) = bytes"
proof -
  define p where "p = getIndexedSize d"
  define st0 where "st0 = initialState d (int p) (int (length bytes))"
  define fh0 where "fh0 = \<lparr>content = bytes, fpos = p\<rparr>"
  have st0: "pos st0 = int p" "file_size st0 = int (length bytes)"
    by (simp_all add: st0_def initialState_def)
  have cc: "chosen_codec e blk d st0 =
      (case getForcedEncoding d of
        Some c \<Rightarrow> c
      | None \<Rightarrow> (case getEncodingGuess d of Some c \<Rightarrow> c | None \<Rightarrow> detectEncoding e blk))" for blk
    by (simp add: chosen_codec_def st0_def initialState_def split: option.splits)
  from readFileInBlocks_shape [of ir fh0] obtain blocks where "reader_shape ir fh0 blocks" ..
  then have r: "fst rd = blocks @ [(- 1, [])]"
    and ch: "block_chain (length bytes) p blocks"
    and ct: "content (snd (snd rd)) = bytes"
    and fp: "fpos (snd (snd rd)) = p + length (concat (map snd blocks))"
    and hd: "blocks \<noteq> [] \<longrightarrow> snd (hd blocks) = take IndexingBlockSize (drop p bytes)"
    by (simp_all add: reader_shape_def rd fh0_def p_def)
  have first: "chosen_codec e (snd b) d st0 = partial_codec e d bytes"
    if "blocks = b # rest" for b rest
    using hd that by (simp add: cc partial_codec_def p_def)
  have av: "case blocks of
              [] \<Rightarrow> True
            | b # _ \<Rightarrow> valid_encoding (encodingParametersOf e (chosen_codec e (snd b) d st0))"
    using v first by (cases blocks) simp_all
  have le: "pos st0 \<le> int p" by (simp add: st0)
  from indexBlocks_chain [OF ch le av]
  obtain new st2 d2 ev where run: "indexBlocks e st0 d (blocks @ [(- 1, [])]) = Some (st2, d2, ev)"
    and off: "offsets (linePosition_m d2) = offsets (linePosition_m d) @ new"
    and fl: "blocks \<noteq> [] \<longrightarrow> \<not> fakeFinalLF (linePosition_m d2)"
    and em: "blocks = [] \<longrightarrow> d2 = d \<and> st2 = st0"
    and son: "sorted_wrt (<) new" and bdn: "\<forall>x\<in>set new. int p < x \<and> x \<le> int (length bytes)"
    and ps: "pos st2 = last (int p # new)"
    and fs: "file_size st2 = int (length bytes)"
    and hs: "hash_size (hash_m d2) = hash_size (hash_m d) + length (concat (map snd blocks))"
    unfolding st0 by blast
  have flag: "fakeFinalLF (linePosition_m d2) \<longrightarrow> fakeFinalLF (linePosition_m d)"
    using fl em by (cases "blocks = []") simp_all
  have pipe: "doIndex_pipeline e bytes ir d (int p) =
      Some (st2, d2, ev, fst (snd rd), snd (snd rd))"
    using run r
    by (simp add: doIndex_pipeline_def Let_def st0_def [symmetric] st0 file_seek_def
        file_open_def fh0_def [symmetric] rd p_def [symmetric])
  have sz: "getIndexedSize d2 = fpos (snd (snd rd))"
    using hs fp by (simp add: getIndexedSize_def p_def)
  show ?thesis
    using pipe off flag son bdn ps fs sz ct unfolding p_def [symmetric]
    by (intro exI [of _ st2] exI [of _ d2] exI [of _ ev] exI [of _ new]) simp
qed







section \<open>Lines that are too long\<close>

lemma expandTabsInLine_no_tab:
  "scanner ep view TAB = None \<Longrightarrow> expandTabsInLine (start, view) p ep scanner a = a"
  by (subst expandTabsInLine.simps) simp

lemma sv_find_absent: "c \<notin> set data \<Longrightarrow> sv_find data c 0 = None"
  by (simp add: sv_find_def index_of_None)

lemma turn_plain:
  assumes w: "lineFeedWidth (encodingParams st) = 1" and i: "lineFeedIndex (encodingParams st) = 0"
    and p: "pos st = 0" and bb: "0 \<le> bb" and ne: "block \<noteq> []"
    and lf: "LF \<notin> set block" and tab: "TAB \<notin> set block"
  shows "parseDataBlock_turn (chosen_scanner (encodingParams st)) bb block st =
           (True, st\<lparr>additional_spaces := additional_spaces st,
                      max_length := max (max_length st)
                        (bb + int (length block) + additional_spaces st)\<rparr>)"
proof -
  have sc: "chosen_scanner (encodingParams st) = findNextSingleByteDelimeter"
    using w by (simp add: chosen_scanner_def)
  have p0: "(if bb \<le> 0 then 0 - bb else 0) = 0"
    using bb by simp
  have nolf: "findNextSingleByteDelimeter (encodingParams st) block LF = None"
    and notab: "findNextSingleByteDelimeter (encodingParams st) block TAB = None"
    using lf tab by (simp_all add: findNextSingleByteDelimeter_def sv_find_absent)
  have fl: "findNextLineFeed block 0 st findNextSingleByteDelimeter =
              (True, int (length block), additional_spaces st)"
    using nolf notab i
    by (simp add: findNextLineFeed_def Let_def expandTabsInLine_no_tab
        charOffsetWithinBlock_def getBeforeCrOffset_def)
  have "parseDataBlock_turn findNextSingleByteDelimeter bb block st =
      (let posWithinBlock0 = (if bb \<le> 0 then 0 - bb else 0);
           isEndOfBlock0 = (posWithinBlock0 = int (length block));
           (isEndOfBlock, posWithinBlock, additionalSpaces) =
             (if \<not> isEndOfBlock0
              then findNextLineFeed block posWithinBlock0 st findNextSingleByteDelimeter
              else (isEndOfBlock0, posWithinBlock0, additional_spaces st));
           currentDataEnd = posWithinBlock + bb;
           length = (currentDataEnd - 0) sdiv int (lineFeedWidth (encodingParams st))
                    + additionalSpaces;
           state1 = st\<lparr>additional_spaces := additionalSpaces,
                          max_length := max (max_length st) length\<rparr>
       in if \<not> isEndOfBlock
          then (isEndOfBlock,
                state1\<lparr>end_pos := currentDataEnd,
                       pos := currentDataEnd + int (lineFeedWidth (encodingParams st)),
                       additional_spaces := 0\<rparr>)
          else (isEndOfBlock, state1))"
    unfolding parseDataBlock_turn_def p ..
  also have "\<dots> = (True, st\<lparr>additional_spaces := additional_spaces st,
                      max_length := max (max_length st)
                        (bb + int (length block) + additional_spaces st)\<rparr>)"
    unfolding p0 using ne w by (simp add: fl Let_def add.commute)
  finally show ?thesis
    by (simp add: sc)
qed

lemma indexNextBlock_plain:
  assumes w: "lineFeedWidth (encodingParametersOf e (chosen_codec e block d st)) = 1"
    and i: "lineFeedIndex (encodingParametersOf e (chosen_codec e block d st)) = 0"
    and p: "pos st = 0" and a: "additional_spaces st = 0" and bb: "0 \<le> bb"
    and ne: "block \<noteq> []" and lf: "LF \<notin> set block" and tab: "TAB \<notin> set block"
  shows "\<exists>st2 d1 ev. indexNextBlock e st d (bb, block) = Some (st2, d1, ev) \<and>
     pos st2 = 0 \<and> additional_spaces st2 = 0 \<and>
     max_length st2 = max (max_length st) (bb + int (length block)) \<and>
     fileTextCodec st2 = Some (chosen_codec e block d st) \<and>
     maxLength_m d1 = max (maxLength_m d) (min (lineLengthMax e) (max_length st2))"
proof -
  define st1 where "st1 = guessEncoding e block d st"
  have f1: "encodingParams st1 = encodingParametersOf e (chosen_codec e block d st)"
    "fileTextCodec st1 = Some (chosen_codec e block d st)"
    "pos st1 = 0" "additional_spaces st1 = 0" "max_length st1 = max_length st"
    using p a by (simp_all add: st1_def guessEncoding_def chosen_codec_def Let_def)
  define st2 where "st2 = st1\<lparr>additional_spaces := additional_spaces st1,
      max_length := max (max_length st1) (bb + int (length block) + additional_spaces st1)\<rparr>"
  have turn: "parseDataBlock_turn (chosen_scanner (encodingParams st1)) bb block st1 = (True, st2)"
    unfolding st2_def
    by (rule turn_plain) (simp_all add: f1 w i bb ne lf tab)
  have "\<not> bb + int (length block) < pos st1" using bb by (simp add: f1)
  then have parse: "parseDataBlock bb block st1 = Some ([], st2)"
    unfolding parseDataBlock_loop_eq
    by (subst parseDataBlock_loop.simps) (simp add: turn Let_def)
  have s2: "pos st2 = 0" "additional_spaces st2 = 0"
    "max_length st2 = max (max_length st) (bb + int (length block))"
    "fileTextCodec st2 = Some (chosen_codec e block d st)"
    by (simp_all add: st2_def f1)
  show ?thesis
    using ne bb parse s2
    by (auto simp add: indexNextBlock_def st1_def [symmetric] Let_def addAll_def
        setProgress_def getProgress_def min_def max_def)
qed


lemma indexBlocks_plain:
  assumes "block_chain n p blocks"
    and "\<forall>b\<in>set blocks. LF \<notin> set (snd b) \<and> TAB \<notin> set (snd b)"
    and "pos st = 0" and "additional_spaces st = 0" and "max_length st = int p"
    and "maxLength_m d = min (lineLengthMax e) (int p)"
    and "case blocks of
           [] \<Rightarrow> True
         | b # _ \<Rightarrow>
             lineFeedWidth (encodingParametersOf e (chosen_codec e (snd b) d st)) = 1 \<and>
             lineFeedIndex (encodingParametersOf e (chosen_codec e (snd b) d st)) = 0"
  shows "\<exists>st2 d2 ev. indexBlocks e st d (blocks @ [(- 1, [])]) = Some (st2, d2, ev) \<and>
     maxLength_m d2 = min (lineLengthMax e) (int (p + length (concat (map snd blocks))))"
  using assms
proof (induction blocks arbitrary: st d p)
  case Nil
  then show ?case by (simp add: indexNextBlock_def)
next
  case (Cons b rest)
  obtain bb blk where b: "b = (bb, blk)" by (cases b)
  from Cons.prems(1) b have bb: "bb = int p" and ne: "blk \<noteq> []"
    and chain': "block_chain n (p + length blk) rest"
    by simp_all
  from Cons.prems(2) b have plain: "LF \<notin> set blk" "TAB \<notin> set blk"
    and plain': "\<forall>b\<in>set rest. LF \<notin> set (snd b) \<and> TAB \<notin> set (snd b)"
    by simp_all
  define c where "c = chosen_codec e blk d st"
  from Cons.prems(7) b have w: "lineFeedWidth (encodingParametersOf e c) = 1"
    and i: "lineFeedIndex (encodingParametersOf e c) = 0"
    by (simp_all add: c_def)
  have bb0: "0 \<le> bb" using bb by simp
  from indexNextBlock_plain [OF w [unfolded c_def] i [unfolded c_def] Cons.prems(3,4) bb0 ne plain]
  obtain st1 d1 ev1 where r1: "indexNextBlock e st d (bb, blk) = Some (st1, d1, ev1)"
    and p1: "pos st1 = 0" and a1: "additional_spaces st1 = 0"
    and m1: "max_length st1 = max (max_length st) (bb + int (length blk))"
    and cd1: "fileTextCodec st1 = Some c"
    and s1: "maxLength_m d1 = max (maxLength_m d) (min (lineLengthMax e) (max_length st1))"
    unfolding c_def by blast
  have m1': "max_length st1 = int (p + length blk)"
    using m1 Cons.prems(5) bb by simp
  have s1': "maxLength_m d1 = min (lineLengthMax e) (int (p + length blk))"
    using s1 m1' Cons.prems(6) by (simp add: min_def max_def)
  have wrest: "case rest of
       [] \<Rightarrow> True
     | b # _ \<Rightarrow>
         lineFeedWidth (encodingParametersOf e (chosen_codec e (snd b) d1 st1)) = 1 \<and>
         lineFeedIndex (encodingParametersOf e (chosen_codec e (snd b) d1 st1)) = 0"
    using w i by (cases rest) (simp_all add: chosen_codec_fixed [OF cd1])
  from Cons.IH [OF chain' plain' p1 a1 m1' s1' wrest]
  obtain st2 d2 ev2 where r2: "indexBlocks e st1 d1 (rest @ [(- 1, [])]) = Some (st2, d2, ev2)"
    and s2: "maxLength_m d2 =
      min (lineLengthMax e) (int (p + length blk + length (concat (map snd rest))))"
    by blast
  have "indexBlocks e st d ((b # rest) @ [(- 1, [])]) = Some (st2, d2, ev1 @ ev2)"
    using r1 r2 b by simp
  moreover have "maxLength_m d2 =
      min (lineLengthMax e) (int (p + length (concat (map snd (b # rest)))))"
    using s2 b by (simp add: add.assoc)
  ultimately show ?case by blast
qed

text \<open>
  A file without line feed and without tab, at least as long as the largest line length: the
  full index shows the message and leaves a cleared store, and reports success.
\<close>

lemma full_index_of_too_long_line:
  assumes v: "valid_encoding (encodingParametersOf e (effective_codec e forced bytes))"
    and w: "lineFeedWidth (encodingParametersOf e (effective_codec e forced bytes)) = 1"
    and lf: "LF \<notin> set bytes" and tab: "TAB \<notin> set bytes"
    and long: "lineLengthMax e \<le> int (length bytes)" and pos: "0 \<le> lineLengthMax e"
  shows "\<exists>d' evs. FullIndexOperation_run e (Some bytes) None forced d = Some (d', evs, True) \<and>
     LinesTooLongMessage \<in> set evs \<and> getNbLines d' = 0 \<and> getIndexedSize d' = 0"
proof -
  define d1 where "d1 = forceEncoding (clear e d) forced"
  define rd where "rd = readFileInBlocks None \<lparr>content = bytes, fpos = 0\<rparr>"
  define st0 where "st0 = initialState d1 0 (int (length bytes))"
  define fh0 where "fh0 = \<lparr>content = bytes, fpos = 0\<rparr>"
  have st0: "pos st0 = 0" "additional_spaces st0 = 0" "max_length st0 = int 0"
    "fileTextCodec st0 = forced" "encodingGuess st0 = None"
    by (simp_all add: st0_def initialState_def d1_def getEncodingGuess_def
        getForcedEncoding_def forceEncoding_def clear_def split: option.splits)
  have d1f: "maxLength_m d1 = min (lineLengthMax e) (int 0)"
    "getForcedEncoding d1 = forced" "getEncodingGuess d1 = None"
    using pos
    by (simp_all add: d1_def forceEncoding_def clear_def getForcedEncoding_def
        getEncodingGuess_def)
  have cc: "chosen_codec e blk d1 st0 =
              (case forced of Some c \<Rightarrow> c | None \<Rightarrow> detectEncoding e blk)" for blk
    by (simp add: chosen_codec_def st0 d1f split: option.splits)
  from readFileInBlocks_shape [of None fh0] obtain blocks where "reader_shape None fh0 blocks" ..
  then have r: "fst rd = blocks @ [(- 1, [])]"
    and ch: "block_chain (length bytes) 0 blocks"
    and hd: "blocks \<noteq> [] \<longrightarrow> snd (hd blocks) = take IndexingBlockSize bytes"
    and nv: "fst (snd rd) = None"
    and al: "\<not> fst (interruptRequested (fst (snd rd))) \<longrightarrow> concat (map snd blocks) = bytes"
    by (simp_all add: reader_shape_def rd_def fh0_def)
  from al nv have all: "concat (map snd blocks) = bytes" by simp
  have plain: "\<forall>b\<in>set blocks. LF \<notin> set (snd b) \<and> TAB \<notin> set (snd b)"
  proof
    fix b assume "b \<in> set blocks"
    then have "set (snd b) \<subseteq> set (concat (map snd blocks))" by auto
    with all lf tab show "LF \<notin> set (snd b) \<and> TAB \<notin> set (snd b)" by auto
  qed
  have first: "chosen_codec e (snd b) d1 st0 = effective_codec e forced bytes"
    if "blocks = b # rest" for b rest
    using hd that by (simp add: cc effective_codec_def)
  from v w have i: "lineFeedIndex (encodingParametersOf e (effective_codec e forced bytes)) = 0"
    by (auto simp: valid_encoding_def)
  have wi: "case blocks of
       [] \<Rightarrow> True
     | b # _ \<Rightarrow>
         lineFeedWidth (encodingParametersOf e (chosen_codec e (snd b) d1 st0)) = 1 \<and>
         lineFeedIndex (encodingParametersOf e (chosen_codec e (snd b) d1 st0)) = 0"
    using w i first by (cases blocks) simp_all
  from indexBlocks_plain [OF ch plain st0(1,2,3) d1f(1) wi]
  obtain st2 d2 ev where run: "indexBlocks e st0 d1 (blocks @ [(- 1, [])]) = Some (st2, d2, ev)"
    and mx: "maxLength_m d2 = min (lineLengthMax e) (int (0 + length (concat (map snd blocks))))"
    by blast
  from mx all long have mx2: "maxLength_m d2 = lineLengthMax e" by simp
  have pipe: "doIndex_pipeline e bytes None d1 0 = Some (st2, d2, ev, None, snd (snd rd))"
    using run r nv
    by (simp add: doIndex_pipeline_def Let_def st0_def [symmetric] st0 file_seek_def
        file_open_def rd_def [symmetric])
  define d3 where "d3 = doIndex_fakeFinalLF e False st2 d2"
  define d4 where "d4 = doIndex_rehash e (snd (snd rd)) d3"
  have mx4: "getMaxLength d4 = lineLengthMax e"
    using mx2 pos
    by (simp add: d4_def d3_def getMaxLength_def doIndex_rehash_def doIndex_fakeFinalLF_def
        addAll_def setHeaderHash_def setTailHash_def Let_def)
  have fin: "doIndex_finish e False d4 =
      (setEncodingGuess (clear e d4) (Some (codecForLocale e)), [LinesTooLongMessage])"
    using mx4
    by (simp add: doIndex_finish_def Let_def getEncodingGuess_def clear_def)
  have "FullIndexOperation_run e (Some bytes) None forced d =
      Some (setEncodingGuess (clear e d4) (Some (codecForLocale e)),
            IndexingProgressed 0 # (ev @ [LinesTooLongMessage]) @ [IndexingFinished True], True)"
    using pipe fin
    by (simp add: FullIndexOperation_run_def FullIndexOperation_run_with_def doIndex_impl_def
        doIndex_def doIndex_rehashed_def Let_def d1_def [symmetric] d3_def [symmetric]
        d4_def [symmetric])
  moreover have "getNbLines (setEncodingGuess (clear e d4) (Some (codecForLocale e))) = 0"
    "getIndexedSize (setEncodingGuess (clear e d4) (Some (codecForLocale e))) = 0"
    by (simp_all add: getNbLines_def getIndexedSize_def setEncodingGuess_def clear_def
        empty_positions_def empty_hash_def)
  ultimately show ?thesis by simp
qed

text \<open>
  C1 as stated fails for lines that are too long: a file of 2147483647 bytes \<open>a\<close> has no
  \<open>LF\<close>, is not empty and does not end in \<open>LF\<close>, so the claim gives it one line; the full
  index reports success and leaves no line.
\<close>

theorem line_count_too_long_line_counterexample:
  "map_option (\<lambda>r. (getNbLines (fst r), snd (snd r)))
     (FullIndexOperation_run scenario_env (Some (replicate 2147483647 0x61)) None None
        empty_store) = Some (0, True)"
proof -
  have v: "valid_encoding (encodingParametersOf scenario_env
             (effective_codec scenario_env None (replicate 2147483647 0x61)))"
    and w: "lineFeedWidth (encodingParametersOf scenario_env
             (effective_codec scenario_env None (replicate 2147483647 0x61))) = 1"
    by (simp_all add: effective_codec_def valid_encoding_def scenario_env_def
        scenario_parameters_def)
  have lf: "LF \<notin> set (replicate 2147483647 (0x61 :: byte))"
    and tab: "TAB \<notin> set (replicate 2147483647 (0x61 :: byte))"
    by (simp_all add: LF_def TAB_def)
  have long: "lineLengthMax scenario_env \<le> int (length (replicate 2147483647 (0x61 :: byte)))"
    and pos: "0 \<le> lineLengthMax scenario_env"
    by (simp_all add: scenario_env_def)
  from full_index_of_too_long_line [OF v w lf tab long pos, of empty_store]
  show ?thesis by auto
qed

section \<open>The fake final line feed and the indexed size\<close>

text \<open>
  C10, as the code has it. A call of \<open>addAll\<close> with an empty block leaves the fingerprint,
  the hash builder, the forced encoding, the progress and the mode as they are; it appends the
  line positions and updates the maximal length and the encoding guess. Consequently, after a
  full index that no interrupt disturbs and that has not shown the message that some lines are
  too long, the indexed size is the byte size of the file; if the flag for a fake final LF is
  set, which under a single-byte encoding it is for every non-empty file that does not end in
  \<open>LF\<close>, the last offset is the file size plus one; and a partial index that follows calls
  \<open>doIndex\<close> with the byte size of the file as its initial position.
\<close>

theorem addAll_empty_block_keeps_size:
  "hash_m (addAll e d [] len linePosition encoding) = hash_m d \<and>
   hashBuilder_m (addAll e d [] len linePosition encoding) = hashBuilder_m d \<and>
   encodingForced_m (addAll e d [] len linePosition encoding) = encodingForced_m d \<and>
   progress_m (addAll e d [] len linePosition encoding) = progress_m d \<and>
   useFastModificationDetection_m (addAll e d [] len linePosition encoding) =
     useFastModificationDetection_m d \<and>
   linePosition_m (addAll e d [] len linePosition encoding) =
     append_list (linePosition_m d) linePosition \<and>
   maxLength_m (addAll e d [] len linePosition encoding) = max (maxLength_m d) len \<and>
   encodingGuess_m (addAll e d [] len linePosition encoding) = encoding \<and>
   (valid_encoding (encodingParametersOf e (effective_codec e forcedEncoding bytes)) \<longrightarrow>
      (\<exists>d' events.
         FullIndexOperation_run e (Some bytes) None forcedEncoding d0 = Some (d', events, True) \<and>
         (LinesTooLongMessage \<notin> set events \<longrightarrow>
            getIndexedSize d' = length bytes \<and>
            (fakeFinalLF (linePosition_m d') \<longrightarrow>
               last (offsets (linePosition_m d')) = int (length bytes) + 1) \<and>
            (lineFeedWidth (encodingParametersOf e (effective_codec e forcedEncoding bytes)) = 1
               \<and> bytes \<noteq> [] \<and> last bytes \<noteq> LF \<longrightarrow> fakeFinalLF (linePosition_m d')) \<and>
            (\<forall>file2 interruptRequest2.
               PartialIndexOperation_run e file2 interruptRequest2 d' =
                 PartialIndexOperation_run_with e
                   (\<lambda>d p. doIndex_impl e file2 interruptRequest2 d (int (length bytes))) d'))))"
proof -
  have frame: "hash_m (addAll e d [] len linePosition encoding) = hash_m d \<and>
   hashBuilder_m (addAll e d [] len linePosition encoding) = hashBuilder_m d \<and>
   encodingForced_m (addAll e d [] len linePosition encoding) = encodingForced_m d \<and>
   progress_m (addAll e d [] len linePosition encoding) = progress_m d \<and>
   useFastModificationDetection_m (addAll e d [] len linePosition encoding) =
     useFastModificationDetection_m d \<and>
   linePosition_m (addAll e d [] len linePosition encoding) =
     append_list (linePosition_m d) linePosition \<and>
   maxLength_m (addAll e d [] len linePosition encoding) = max (maxLength_m d) len \<and>
   encodingGuess_m (addAll e d [] len linePosition encoding) = encoding"
    by (simp add: addAll_def Let_def)
  have run: "\<exists>d' events.
         FullIndexOperation_run e (Some bytes) None forcedEncoding d0 = Some (d', events, True) \<and>
         (LinesTooLongMessage \<notin> set events \<longrightarrow>
            getIndexedSize d' = length bytes \<and>
            (fakeFinalLF (linePosition_m d') \<longrightarrow>
               last (offsets (linePosition_m d')) = int (length bytes) + 1) \<and>
            (lineFeedWidth (encodingParametersOf e (effective_codec e forcedEncoding bytes)) = 1
               \<and> bytes \<noteq> [] \<and> last bytes \<noteq> LF \<longrightarrow> fakeFinalLF (linePosition_m d')) \<and>
            (\<forall>file2 interruptRequest2.
               PartialIndexOperation_run e file2 interruptRequest2 d' =
                 PartialIndexOperation_run_with e
                   (\<lambda>d p. doIndex_impl e file2 interruptRequest2 d (int (length bytes))) d'))"
    if v: "valid_encoding (encodingParametersOf e (effective_codec e forcedEncoding bytes))"
  proof -
    from full_index_outcome [OF v, of None d0]
    obtain d' evs res new
      where r: "FullIndexOperation_run e (Some bytes) None forcedEncoding d0 = Some (d', evs, res)"
      and res: "res"
      and good: "res \<and> LinesTooLongMessage \<notin> set evs \<longrightarrow>
        getIndexedSize d' = length bytes \<and>
        linePosition_m d' =
          (if int (length bytes) > last (0 # new)
           then \<lparr>offsets = new @ [int (length bytes) + 1], fakeFinalLF = True\<rparr>
           else \<lparr>offsets = new, fakeFinalLF = False\<rparr>) \<and>
        (lineFeedWidth (encodingParametersOf e (effective_codec e forcedEncoding bytes)) = 1
           \<longrightarrow> new = lf_offsets 0 bytes)"
      by blast
    have "getIndexedSize d' = length bytes \<and>
            (fakeFinalLF (linePosition_m d') \<longrightarrow>
               last (offsets (linePosition_m d')) = int (length bytes) + 1) \<and>
            (lineFeedWidth (encodingParametersOf e (effective_codec e forcedEncoding bytes)) = 1
               \<and> bytes \<noteq> [] \<and> last bytes \<noteq> LF \<longrightarrow> fakeFinalLF (linePosition_m d')) \<and>
            (\<forall>file2 interruptRequest2.
               PartialIndexOperation_run e file2 interruptRequest2 d' =
                 PartialIndexOperation_run_with e
                   (\<lambda>d p. doIndex_impl e file2 interruptRequest2 d (int (length bytes))) d')"
      if t: "LinesTooLongMessage \<notin> set evs"
    proof -
      from good res t have sz: "getIndexedSize d' = length bytes"
        and lp: "linePosition_m d' =
          (if int (length bytes) > last (0 # new)
           then \<lparr>offsets = new @ [int (length bytes) + 1], fakeFinalLF = True\<rparr>
           else \<lparr>offsets = new, fakeFinalLF = False\<rparr>)"
        and pr: "lineFeedWidth (encodingParametersOf e (effective_codec e forcedEncoding bytes)) = 1
           \<longrightarrow> new = lf_offsets 0 bytes"
        by simp_all
      have a: "fakeFinalLF (linePosition_m d') \<longrightarrow>
               last (offsets (linePosition_m d')) = int (length bytes) + 1"
        using lp by (simp split: if_splits)
      have b: "fakeFinalLF (linePosition_m d')"
        if "lineFeedWidth (encodingParametersOf e (effective_codec e forcedEncoding bytes)) = 1
               \<and> bytes \<noteq> [] \<and> last bytes \<noteq> LF"
        using that pr lp last_lf_offsets_below [of 0 bytes] by simp
      have c: "PartialIndexOperation_run e file2 interruptRequest2 d' =
                 PartialIndexOperation_run_with e
                   (\<lambda>d p. doIndex_impl e file2 interruptRequest2 d (int (length bytes))) d'"
        for file2 interruptRequest2
        by (simp add: PartialIndexOperation_run_def PartialIndexOperation_run_with_def sz)
      from sz a b c show ?thesis by blast
    qed
    moreover from r res
    have "FullIndexOperation_run e (Some bytes) None forcedEncoding d0 = Some (d', evs, True)"
      by simp
    ultimately show ?thesis by blast
  qed
  from frame run show ?thesis by blast
qed

theorem addAll_empty_block_keeps_size_witness:
  "valid_encoding (encodingParametersOf scenario_env
     (effective_codec scenario_env None [0x68, 0x65, 0x6C, 0x6C, 0x6F])) \<and>
   map_option (\<lambda>r. (getIndexedSize (fst r), linePosition_m (fst r),
                      LinesTooLongMessage \<in> set (fst (snd r)), snd (snd r)))
     (FullIndexOperation_run scenario_env (Some [0x68, 0x65, 0x6C, 0x6C, 0x6F]) None None
        empty_store) =
     Some (5, \<lparr>offsets = [6], fakeFinalLF = True\<rparr>, False, True)"
proof -
  have v: "valid_encoding (encodingParametersOf scenario_env
     (effective_codec scenario_env None [0x68, 0x65, 0x6C, 0x6C, 0x6F]))"
    by (simp add: effective_codec_def valid_encoding_def scenario_env_def
        scenario_parameters_def)
  have ev: "map_option (\<lambda>r. (linePosition_m (fst r), LinesTooLongMessage \<in> set (fst (snd r))))
     (FullIndexOperation_run scenario_env (Some [0x68, 0x65, 0x6C, 0x6C, 0x6F]) None None
        empty_store) = Some (\<lparr>offsets = [6], fakeFinalLF = True\<rparr>, False)"
    by (simp add: run_defs readFileInBlocks_small)
  from addAll_empty_block_keeps_size [of scenario_env empty_store 0 empty_positions None None
      "[0x68, 0x65, 0x6C, 0x6C, 0x6F]" empty_store] v ev
  show ?thesis
    by auto
qed

text \<open>
  C10 as stated fails for lines that are too long: a file of 2147483647 bytes \<open>b\<close> does not
  end in \<open>LF\<close>; after its full index, which reports success, the indexed size is 0 and not
  the size of the file.
\<close>

theorem indexed_size_too_long_line_counterexample:
  "map_option (\<lambda>r. (getIndexedSize (fst r), snd (snd r)))
     (FullIndexOperation_run scenario_env (Some (replicate 2147483647 0x62)) None None
        empty_store) = Some (0, True)"
proof -
  have v: "valid_encoding (encodingParametersOf scenario_env
             (effective_codec scenario_env None (replicate 2147483647 0x62)))"
    and w: "lineFeedWidth (encodingParametersOf scenario_env
             (effective_codec scenario_env None (replicate 2147483647 0x62))) = 1"
    by (simp_all add: effective_codec_def valid_encoding_def scenario_env_def
        scenario_parameters_def)
  have lf: "LF \<notin> set (replicate 2147483647 (0x62 :: byte))"
    and tab: "TAB \<notin> set (replicate 2147483647 (0x62 :: byte))"
    by (simp_all add: LF_def TAB_def)
  have long: "lineLengthMax scenario_env \<le> int (length (replicate 2147483647 (0x62 :: byte)))"
    and pos: "0 \<le> lineLengthMax scenario_env"
    by (simp_all add: scenario_env_def)
  from full_index_of_too_long_line [OF v w lf tab long pos, of empty_store]
  show ?thesis by auto
qed

section \<open>Multi-byte line feeds and tab expansion\<close>

text \<open>
  C3. Under a multi-byte encoding the scanner returns a position only if it holds the
  delimiter byte and its \<open>lineFeedWidth - 1\<close> neighbouring bytes (forward when
  \<open>lineFeedIndex = 0\<close>, backward otherwise) all lie within the slice and are all zero; no
  earlier candidate has that property, so after each rejection the search went on with the
  next byte; and the scanner returns nothing only if no candidate of the slice has it. In
  particular the full index of the UTF-16LE bytes \<open>41 00 0A 01 0A 00 42 00 0A 00\<close> leaves
  exactly two lines, with the offsets \<open>[6, 10]\<close>.
\<close>

theorem multi_byte_scanner_finds_genuine_delimiter:
  "(1 < lineFeedWidth ep \<longrightarrow>
      scanner_result ep data delimeter (findNextMultiByteDelimeter ep data delimeter)) \<and>
   map_option (\<lambda>r. (getNbLines (fst r), offsets (linePosition_m (fst r))))
     (FullIndexOperation_run scenario_env
        (Some [0x41, 0x00, 0x0A, 0x01, 0x0A, 0x00, 0x42, 0x00, 0x0A, 0x00]) None
        (Some ''UTF-16LE'') empty_store) = Some (2, [6, 10])"
proof -
  have "scanner_result ep data delimeter (findNextMultiByteDelimeter ep data delimeter)"
    if "1 < lineFeedWidth ep"
    using that by (intro findNextMultiByteDelimeter_result) simp
  moreover have "map_option (\<lambda>r. (getNbLines (fst r), offsets (linePosition_m (fst r))))
     (FullIndexOperation_run scenario_env
        (Some [0x41, 0x00, 0x0A, 0x01, 0x0A, 0x00, 0x42, 0x00, 0x0A, 0x00]) None
        (Some ''UTF-16LE'') empty_store) = Some (2, [6, 10])"
    by (simp add: run_defs readFileInBlocks_small getNbLines_def)
  ultimately show ?thesis by blast
qed

theorem multi_byte_scanner_finds_genuine_delimiter_witness:
  "1 < lineFeedWidth \<lparr>lineFeedWidth = 2, lineFeedIndex = 0\<rparr> \<and>
   findNextMultiByteDelimeter \<lparr>lineFeedWidth = 2, lineFeedIndex = 0\<rparr>
     [0x41, 0x00, 0x0A, 0x01, 0x0A, 0x00, 0x42, 0x00, 0x0A, 0x00] LF = Some 4 \<and>
   scanner_result \<lparr>lineFeedWidth = 2, lineFeedIndex = 0\<rparr>
     [0x41, 0x00, 0x0A, 0x01, 0x0A, 0x00, 0x42, 0x00, 0x0A, 0x00] LF (Some 4)"
proof -
  have f: "findNextMultiByteDelimeter \<lparr>lineFeedWidth = 2, lineFeedIndex = 0\<rparr>
     [0x41, 0x00, 0x0A, 0x01, 0x0A, 0x00, 0x42, 0x00, 0x0A, 0x00] LF = Some 4"
    by (simp add: findNextMultiByteDelimeter_def sv_find_def isNotDelimeter_def LF_def
        multiByteLoop_None multiByteLoop_Some Let_def upt_rec)
  from multi_byte_scanner_finds_genuine_delimiter
    [of "\<lparr>lineFeedWidth = 2, lineFeedIndex = 0\<rparr>"
      "[0x41, 0x00, 0x0A, 0x01, 0x0A, 0x00, 0x42, 0x00, 0x0A, 0x00]" LF] f
  show ?thesis by simp
qed

section \<open>Exceptions at the boundary of an operation\<close>

lemma clear_any: "clear e d = clear e d'"
  by (simp add: clear_def)







section \<open>Tab expansion\<close>










section \<open>An interrupt observed by the reader\<close>

lemma readFileInBlocks_observed:
  "p + k * IndexingBlockSize < length bytes \<Longrightarrow>
     readFileInBlocks (Some k) \<lparr>content = bytes, fpos = p\<rparr> =
       (first_blocks bytes p k @ [(- 1, [])], Some 0,
        \<lparr>content = bytes, fpos = p + k * IndexingBlockSize\<rparr>)"
proof (induction k arbitrary: p)
  case 0
  then show ?case
    by (subst readFileInBlocks.simps) (simp add: file_atEnd_def)
next
  case (Suc k)
  then have lt: "p + IndexingBlockSize + k * IndexingBlockSize < length bytes"
    by (simp add: add.assoc)
  then have len: "min (length bytes - p) IndexingBlockSize = IndexingBlockSize"
    by simp
  have "readFileInBlocks (Some (Suc k)) \<lparr>content = bytes, fpos = p\<rparr> =
      ((int p, take IndexingBlockSize (drop p bytes))
         # fst (readFileInBlocks (Some k) \<lparr>content = bytes, fpos = p + IndexingBlockSize\<rparr>),
       snd (readFileInBlocks (Some k) \<lparr>content = bytes, fpos = p + IndexingBlockSize\<rparr>))"
    using lt len
    by (subst readFileInBlocks.simps) (simp add: file_atEnd_def file_read_def Let_def)
  with Suc.IH [OF lt] show ?case by (simp add: add.assoc)
qed


lemma doIndex_finish_interrupted:
  "fst (doIndex_finish e True d4) = setEncodingGuess (clear e d) (Some (codecForLocale e))"
proof -
  have "clear e (clear e d4) = clear e d" "clear e d4 = clear e d"
    by (rule clear_any)+
  then show ?thesis
    by (simp add: doIndex_finish_def Let_def getEncodingGuess_def)
      (simp add: clear_def setEncodingGuess_def)
qed

lemma doIndex_interrupted:
  assumes pipe: "doIndex_pipeline e bytes ir d1 p = Some (st, d2, ev, Some 0, fh)"
  shows "doIndex_rehashed e bytes ir d1 p = Some (doIndex_rehash e fh d2, ev, Some 0)"
    and "doIndex e (Some bytes) ir d1 p =
           Some (setEncodingGuess (clear e d) (Some (codecForLocale e)),
                 ev @ snd (doIndex_finish e True (doIndex_rehash e fh d2)), Some 0)"
proof -
  show r: "doIndex_rehashed e bytes ir d1 p = Some (doIndex_rehash e fh d2, ev, Some 0)"
    using pipe by (simp add: doIndex_rehashed_def doIndex_fakeFinalLF_def)
  show "doIndex e (Some bytes) ir d1 p =
           Some (setEncodingGuess (clear e d) (Some (codecForLocale e)),
                 ev @ snd (doIndex_finish e True (doIndex_rehash e fh d2)), Some 0)"
    using doIndex_finish_interrupted [of e "doIndex_rehash e fh d2" d]
    by (simp add: doIndex_def r Let_def)
qed

lemma doIndex_rehash_header:
  "headerSize (hash_m (doIndex_rehash e \<lparr>content = bytes, fpos = q\<rparr> d)) =
     min IndexingBlockSize (length bytes)"
  by (simp add: doIndex_rehash_def setHeaderHash_def setTailHash_def file_read_def
      file_seek_def Let_def min.commute)


lemma full_index_interrupted:
  assumes v: "valid_encoding (encodingParametersOf e (effective_codec e forcedEncoding bytes))"
    and k: "k * IndexingBlockSize < length bytes"
  shows "\<exists>st d2 ev.
       doIndex_pipeline e bytes (Some k) (forceEncoding (clear e d) forcedEncoding) 0 =
         Some (st, d2, ev, Some 0, \<lparr>content = bytes, fpos = k * IndexingBlockSize\<rparr>) \<and>
       getIndexedSize d2 = k * IndexingBlockSize \<and>
       \<not> fakeFinalLF (linePosition_m d2) \<and>
       doIndex_rehashed e bytes (Some k) (forceEncoding (clear e d) forcedEncoding) 0 =
         Some (doIndex_rehash e \<lparr>content = bytes, fpos = k * IndexingBlockSize\<rparr> d2, ev, Some 0)"
    and "\<exists>events.
       FullIndexOperation_run e (Some bytes) (Some k) forcedEncoding d =
         Some (setEncodingGuess (clear e d) (Some (codecForLocale e)), events, False) \<and>
       last events = IndexingFinished False"
proof -
  define d1 where "d1 = forceEncoding (clear e d) forcedEncoding"
  define rd where "rd = readFileInBlocks (Some k) \<lparr>content = bytes, fpos = 0\<rparr>"
  define fh where "fh = \<lparr>content = bytes, fpos = k * IndexingBlockSize\<rparr>"
  have rd: "fst (snd rd) = Some 0" "snd (snd rd) = fh"
    using readFileInBlocks_observed [of 0 k bytes] k by (simp_all add: rd_def fh_def)
  from doIndex_pipeline_full [OF v d1_def rd_def]
  obtain st d2 ev new where pipe: "doIndex_pipeline e bytes (Some k) d1 0 = Some (st, d2, ev, Some 0, fh)"
    and lp: "linePosition_m d2 = \<lparr>offsets = new, fakeFinalLF = False\<rparr>"
    and hs: "hash_size (hash_m d2) = fpos fh"
    unfolding rd by blast
  note fin = doIndex_interrupted(1) [OF pipe] doIndex_interrupted(2) [OF pipe, of d]
  have "getIndexedSize d2 = k * IndexingBlockSize" "\<not> fakeFinalLF (linePosition_m d2)"
    using hs lp by (simp_all add: getIndexedSize_def fh_def)
  with pipe fin(1) show "\<exists>st d2 ev.
       doIndex_pipeline e bytes (Some k) (forceEncoding (clear e d) forcedEncoding) 0 =
         Some (st, d2, ev, Some 0, \<lparr>content = bytes, fpos = k * IndexingBlockSize\<rparr>) \<and>
       getIndexedSize d2 = k * IndexingBlockSize \<and>
       \<not> fakeFinalLF (linePosition_m d2) \<and>
       doIndex_rehashed e bytes (Some k) (forceEncoding (clear e d) forcedEncoding) 0 =
         Some (doIndex_rehash e \<lparr>content = bytes, fpos = k * IndexingBlockSize\<rparr> d2, ev, Some 0)"
    unfolding d1_def fh_def by blast
  have "FullIndexOperation_run e (Some bytes) (Some k) forcedEncoding d =
      Some (setEncodingGuess (clear e d) (Some (codecForLocale e)),
            IndexingProgressed 0 # (ev @ snd (doIndex_finish e True (doIndex_rehash e fh d2)))
              @ [IndexingFinished False], False)"
    using fin(2)
    by (simp add: FullIndexOperation_run_def FullIndexOperation_run_with_def doIndex_impl_def
        Let_def d1_def [symmetric])
  then show "\<exists>events.
       FullIndexOperation_run e (Some bytes) (Some k) forcedEncoding d =
         Some (setEncodingGuess (clear e d) (Some (codecForLocale e)), events, False) \<and>
       last events = IndexingFinished False"
    by simp
qed

lemma partial_index_interrupted:
  assumes v: "valid_encoding (encodingParametersOf e (partial_codec e d bytes))"
    and k: "getIndexedSize d + k * IndexingBlockSize < length bytes"
  shows "\<exists>events.
       PartialIndexOperation_run e (Some bytes) (Some k) d =
         Some (setEncodingGuess (clear e d) (Some (codecForLocale e)), events, False) \<and>
       last events = IndexingFinished False"
proof -
  define rd where "rd = readFileInBlocks (Some k) \<lparr>content = bytes, fpos = getIndexedSize d\<rparr>"
  define fh where "fh = \<lparr>content = bytes, fpos = getIndexedSize d + k * IndexingBlockSize\<rparr>"
  have rd: "fst (snd rd) = Some 0" "snd (snd rd) = fh"
    using readFileInBlocks_observed [of "getIndexedSize d" k bytes] k
    by (simp_all add: rd_def fh_def)
  from doIndex_pipeline_partial [OF v rd_def]
  obtain st d2 ev where pipe: "doIndex_pipeline e bytes (Some k) d (int (getIndexedSize d)) =
      Some (st, d2, ev, Some 0, fh)"
    unfolding rd by blast
  note fin = doIndex_interrupted(1) [OF pipe] doIndex_interrupted(2) [OF pipe, of d]
  have "PartialIndexOperation_run e (Some bytes) (Some k) d =
      Some (setEncodingGuess (clear e d) (Some (codecForLocale e)),
            IndexingProgressed 0 # (ev @ snd (doIndex_finish e True (doIndex_rehash e fh d2)))
              @ [IndexingFinished False], False)"
    using fin(2)
    by (simp add: PartialIndexOperation_run_def PartialIndexOperation_run_with_def
        doIndex_impl_def Let_def)
  then show ?thesis by simp
qed

text \<open>
  C7. When the reader finds the interrupt flag set at a block boundary, after \<open>k\<close> blocks and
  before the end of the file, it emits those \<open>k\<close> blocks and its sentinel and nothing more.
  The parser takes in all of them: the indexed size is then \<open>k\<close> blocks. The finalization
  inserts no synthetic final offset, yet it does compute the header and tail hashes; then the
  store is cleared, its encoding guess is set to the codec of the locale, and the operation
  ends with an \<^verbatim>\<open>indexingFinished\<close> event and result Interrupted. The same holds for
  a partial index, whose reader starts at the indexed size.
\<close>

theorem interrupt_observed_by_reader:
  "(valid_encoding (encodingParametersOf e (effective_codec e forcedEncoding bytes)) \<and>
    k * IndexingBlockSize < length bytes \<longrightarrow>
      readFileInBlocks (Some k) \<lparr>content = bytes, fpos = 0\<rparr> =
        (first_blocks bytes 0 k @ [(- 1, [])], Some 0,
         \<lparr>content = bytes, fpos = k * IndexingBlockSize\<rparr>) \<and>
      (\<exists>st d2 ev.
         doIndex_pipeline e bytes (Some k) (forceEncoding (clear e d) forcedEncoding) 0 =
           Some (st, d2, ev, Some 0, \<lparr>content = bytes, fpos = k * IndexingBlockSize\<rparr>) \<and>
         getIndexedSize d2 = k * IndexingBlockSize \<and>
         \<not> fakeFinalLF (linePosition_m d2) \<and>
         doIndex_rehashed e bytes (Some k) (forceEncoding (clear e d) forcedEncoding) 0 =
           Some (doIndex_rehash e \<lparr>content = bytes, fpos = k * IndexingBlockSize\<rparr> d2,
                 ev, Some 0) \<and>
         linePosition_m (doIndex_rehash e \<lparr>content = bytes, fpos = k * IndexingBlockSize\<rparr> d2)
           = linePosition_m d2 \<and>
         headerSize (hash_m (doIndex_rehash e
            \<lparr>content = bytes, fpos = k * IndexingBlockSize\<rparr> d2)) =
           min IndexingBlockSize (length bytes)) \<and>
      (\<exists>events.
         FullIndexOperation_run e (Some bytes) (Some k) forcedEncoding d =
           Some (setEncodingGuess (clear e d) (Some (codecForLocale e)), events, False) \<and>
         last events = IndexingFinished False)) \<and>
   (valid_encoding (encodingParametersOf e (partial_codec e d bytes)) \<and>
    getIndexedSize d + k * IndexingBlockSize < length bytes \<longrightarrow>
      readFileInBlocks (Some k) \<lparr>content = bytes, fpos = getIndexedSize d\<rparr> =
        (first_blocks bytes (getIndexedSize d) k @ [(- 1, [])], Some 0,
         \<lparr>content = bytes, fpos = getIndexedSize d + k * IndexingBlockSize\<rparr>) \<and>
      (\<exists>events.
         PartialIndexOperation_run e (Some bytes) (Some k) d =
           Some (setEncodingGuess (clear e d) (Some (codecForLocale e)), events, False) \<and>
         last events = IndexingFinished False))"
proof (intro conjI impI)
  assume a: "valid_encoding (encodingParametersOf e (effective_codec e forcedEncoding bytes)) \<and>
    k * IndexingBlockSize < length bytes"
  then show "readFileInBlocks (Some k) \<lparr>content = bytes, fpos = 0\<rparr> =
        (first_blocks bytes 0 k @ [(- 1, [])], Some 0,
         \<lparr>content = bytes, fpos = k * IndexingBlockSize\<rparr>)"
    using readFileInBlocks_observed [of 0 k bytes] by simp
  from a have v: "valid_encoding (encodingParametersOf e (effective_codec e forcedEncoding bytes))"
    and k: "k * IndexingBlockSize < length bytes" by simp_all
  from full_index_interrupted(1) [OF v k, of d]
  show "\<exists>st d2 ev.
         doIndex_pipeline e bytes (Some k) (forceEncoding (clear e d) forcedEncoding) 0 =
           Some (st, d2, ev, Some 0, \<lparr>content = bytes, fpos = k * IndexingBlockSize\<rparr>) \<and>
         getIndexedSize d2 = k * IndexingBlockSize \<and>
         \<not> fakeFinalLF (linePosition_m d2) \<and>
         doIndex_rehashed e bytes (Some k) (forceEncoding (clear e d) forcedEncoding) 0 =
           Some (doIndex_rehash e \<lparr>content = bytes, fpos = k * IndexingBlockSize\<rparr> d2,
                 ev, Some 0) \<and>
         linePosition_m (doIndex_rehash e \<lparr>content = bytes, fpos = k * IndexingBlockSize\<rparr> d2)
           = linePosition_m d2 \<and>
         headerSize (hash_m (doIndex_rehash e
            \<lparr>content = bytes, fpos = k * IndexingBlockSize\<rparr> d2)) =
           min IndexingBlockSize (length bytes)"
    by (simp only: doIndex_rehash_header doIndex_rehash_fields) simp
  from full_index_interrupted(2) [OF v k, of d]
  show "\<exists>events.
         FullIndexOperation_run e (Some bytes) (Some k) forcedEncoding d =
           Some (setEncodingGuess (clear e d) (Some (codecForLocale e)), events, False) \<and>
         last events = IndexingFinished False" .
next
  assume a: "valid_encoding (encodingParametersOf e (partial_codec e d bytes)) \<and>
    getIndexedSize d + k * IndexingBlockSize < length bytes"
  then show "readFileInBlocks (Some k) \<lparr>content = bytes, fpos = getIndexedSize d\<rparr> =
        (first_blocks bytes (getIndexedSize d) k @ [(- 1, [])], Some 0,
         \<lparr>content = bytes, fpos = getIndexedSize d + k * IndexingBlockSize\<rparr>)"
    using readFileInBlocks_observed [of "getIndexedSize d" k bytes] by simp
  from a partial_index_interrupted [of e d bytes k]
  show "\<exists>events.
         PartialIndexOperation_run e (Some bytes) (Some k) d =
           Some (setEncodingGuess (clear e d) (Some (codecForLocale e)), events, False) \<and>
         last events = IndexingFinished False"
    by simp
qed


theorem interrupt_observed_by_reader_witness:
  "valid_encoding (encodingParametersOf scenario_env
     (effective_codec scenario_env None [0x68, 0x65, 0x6C, 0x6C, 0x6F])) \<and>
   0 * IndexingBlockSize < length [0x68, 0x65, 0x6C, 0x6C, 0x6F :: byte] \<and>
   valid_encoding (encodingParametersOf scenario_env
     (partial_codec scenario_env store_of_one_line [0x61, 0x0A, 0x62, 0x0A])) \<and>
   getIndexedSize store_of_one_line + 0 * IndexingBlockSize
     < length [0x61, 0x0A, 0x62, 0x0A :: byte] \<and>
   map_option (\<lambda>r. (getNbLines (fst r), getIndexedSize (fst r), getEncodingGuess (fst r), snd r))
     (FullIndexOperation_run scenario_env (Some [0x68, 0x65, 0x6C, 0x6C, 0x6F]) (Some 0) None
        empty_store) =
     Some (0, 0, Some ''System'', [IndexingProgressed 0, IndexingFinished False], False) \<and>
   map_option (\<lambda>r. (getNbLines (fst r), getIndexedSize (fst r), getEncodingGuess (fst r), snd r))
     (PartialIndexOperation_run scenario_env (Some [0x61, 0x0A, 0x62, 0x0A]) (Some 0)
        store_of_one_line) =
     Some (0, 0, Some ''System'', [IndexingProgressed 0, IndexingFinished False], False)"
proof -
  have v: "valid_encoding (encodingParametersOf scenario_env
     (effective_codec scenario_env None [0x68, 0x65, 0x6C, 0x6C, 0x6F]))"
    by (simp add: effective_codec_def valid_encoding_def scenario_env_def
        scenario_parameters_def)
  have k: "0 * IndexingBlockSize < length [0x68, 0x65, 0x6C, 0x6C, 0x6F :: byte]"
    by simp
  have pv: "valid_encoding (encodingParametersOf scenario_env
     (partial_codec scenario_env store_of_one_line [0x61, 0x0A, 0x62, 0x0A]))"
    by (simp add: partial_codec_def valid_encoding_def scenario_env_def
        scenario_parameters_def split: option.splits)
  have g: "getIndexedSize store_of_one_line + 0 * IndexingBlockSize
     < length [0x61, 0x0A, 0x62, 0x0A :: byte]"
    by (simp add: store_of_one_line_def getIndexedSize_def addAll_def
        clear_def empty_hash_def empty_store_def scenario_env_def Let_def)
  have c: "getNbLines (setEncodingGuess (clear scenario_env d) (Some (codecForLocale scenario_env))) = 0"
    "getIndexedSize (setEncodingGuess (clear scenario_env d) (Some (codecForLocale scenario_env))) = 0"
    "getEncodingGuess (setEncodingGuess (clear scenario_env d) (Some (codecForLocale scenario_env)))
       = Some ''System''" for d
    by (simp_all add: getNbLines_def getIndexedSize_def getEncodingGuess_def setEncodingGuess_def
        clear_def empty_positions_def empty_hash_def scenario_env_def)
  have full: "map_option (\<lambda>r. snd r)
     (FullIndexOperation_run scenario_env (Some [0x68, 0x65, 0x6C, 0x6C, 0x6F]) (Some 0) None
        empty_store) = Some ([IndexingProgressed 0, IndexingFinished False], False)"
    by (simp add: run_defs readFileInBlocks_interrupted)
  have part: "map_option (\<lambda>r. snd r)
     (PartialIndexOperation_run scenario_env (Some [0x61, 0x0A, 0x62, 0x0A]) (Some 0)
        store_of_one_line) = Some ([IndexingProgressed 0, IndexingFinished False], False)"
    by (simp add: PartialIndexOperation_run_def PartialIndexOperation_run_with_def
        store_of_one_line_def getIndexedSize_def run_defs readFileInBlocks_interrupted)
  from interrupt_observed_by_reader
    [of scenario_env None "[0x68, 0x65, 0x6C, 0x6C, 0x6F]" 0 empty_store] v k
  obtain events where "FullIndexOperation_run scenario_env (Some [0x68, 0x65, 0x6C, 0x6C, 0x6F])
      (Some 0) None empty_store =
      Some (setEncodingGuess (clear scenario_env empty_store) (Some (codecForLocale scenario_env)),
            events, False)"
    by blast
  with full c have f: "map_option (\<lambda>r. (getNbLines (fst r), getIndexedSize (fst r), getEncodingGuess (fst r), snd r))
     (FullIndexOperation_run scenario_env (Some [0x68, 0x65, 0x6C, 0x6C, 0x6F]) (Some 0) None
        empty_store) =
     Some (0, 0, Some ''System'', [IndexingProgressed 0, IndexingFinished False], False)"
    by simp
  from interrupt_observed_by_reader
    [of scenario_env None "[0x61, 0x0A, 0x62, 0x0A]" 0 store_of_one_line] pv g
  obtain events where "PartialIndexOperation_run scenario_env (Some [0x61, 0x0A, 0x62, 0x0A])
      (Some 0) store_of_one_line =
      Some (setEncodingGuess (clear scenario_env store_of_one_line)
              (Some (codecForLocale scenario_env)), events, False)"
    by blast
  with part c have p: "map_option (\<lambda>r. (getNbLines (fst r), getIndexedSize (fst r), getEncodingGuess (fst r), snd r))
     (PartialIndexOperation_run scenario_env (Some [0x61, 0x0A, 0x62, 0x0A]) (Some 0)
        store_of_one_line) =
     Some (0, 0, Some ''System'', [IndexingProgressed 0, IndexingFinished False], False)"
    by simp
  from v k pv g f p show ?thesis by blast
qed

theorem rehash_after_interrupt_counterexample:
  "map_option (\<lambda>r. (headerSize (hash_m (fst r)), tailSize (hash_m (fst r)),
                     headerDigest (hash_m (fst r)) = scenario_digest [0x68, 0x65, 0x6C, 0x6C, 0x6F],
                     offsets (linePosition_m (fst r)), snd (snd r)))
     (doIndex_rehashed scenario_env [0x68, 0x65, 0x6C, 0x6C, 0x6F] (Some 0)
        (forceEncoding (clear scenario_env empty_store) None) 0) =
     Some (5, 5, True, [], Some 0) \<and>
   headerSize (hash_m (forceEncoding (clear scenario_env empty_store) None)) = 0"
  by (simp add: run_defs readFileInBlocks_interrupted)

end
